theory Spec2Isabelle
  imports Main "HOL-Library.Sublist"
begin

section \<open>The Athena-to-Postgres migration script (src/athena-to-postgres.js)\<close>

text \<open>
  The script resolves the column metadata of a fixed list of Glue tables, then, one
  table after the other, submits a \<open>SELECT\<close> to Athena, polls the execution until
  it has \<open>FAILED\<close> or \<open>SUCCEEDED\<close>, pages through the results and inserts every
  page into Postgres with one multi-row \<open>INSERT\<close>.

  The embedding is shallow. The two services are parameters (the record \<open>world\<close>);
  the program state is the history of everything the script has done to them and
  written to its log, a list of events that every function takes and returns
  extended. A JavaScript exception is the outcome \<open>Thrown\<close>. The two unbounded
  loops (status polling, result paging) take fuel and return \<open>None\<close> when it runs
  out, so that a loop that never ends is a value of the model.
\<close>

subsection \<open>Strings\<close>

text \<open>\<open>Array.prototype.join\<close> on an array of strings.\<close>

fun join :: "string \<Rightarrow> string list \<Rightarrow> string" where
  "join sep [] = []"
| "join sep [x] = x"
| "join sep (x # y # ys) = x @ sep @ join sep (y # ys)"

text \<open>The decimal text of a non-negative integer, as a template literal prints it.\<close>

definition digitChar :: "nat \<Rightarrow> char" where
  "digitChar d = char_of (48 + d)"

fun decimal :: "nat \<Rightarrow> string" where
  "decimal n = (if n < 10 then [digitChar n] else decimal (n div 10) @ [digitChar (n mod 10)])"

declare decimal.simps [simp del]

subsection \<open>Data\<close>

text \<open>An \<open>Error\<close> object, by its message.\<close>

datatype error = Error string

text \<open>How a call ends: it returns, or an exception leaves it.\<close>

datatype outcome = Returned | Thrown error

text \<open>The entries of \<open>tablesWithColumns\<close> (lines 81-85).\<close>

record tableEntry =
  athName :: string
  pgName :: string
  columns :: "string list"

text \<open>The parts of the Athena responses that the script reads.\<close>

record column =
  Name :: string

record queryExecutionStatus =
  State :: string
  StateChangeReason :: "string option"

record datum =
  VarCharValue :: "string option"

record athenaRow =
  Data :: "datum list"

record queryResults =
  Rows :: "athenaRow list"
  NextToken :: "string option"

text \<open>
  The lines the script writes with \<open>console.log\<close> and \<open>console.error\<close>, one
  constructor for each call, with the values interpolated into its text:
  \<^item> \<open>QueryingAthena t\<close>: \<open>---------------------- Querying Athena for t ----------------------\<close> (line 95)
  \<^item> \<open>QueryFailed r\<close>: \<open>Query Failed. \<close> and the state change reason (line 118)
  \<^item> \<open>QuerySucceeded\<close>: \<open>Query Succeeded. Now fetching results...\<close> (line 122)
  \<^item> \<open>FinishedQuerying t\<close>: \<open>---------------------- Finished querying Athena for t ----------------------\<close> (line 144)
  \<^item> \<open>NumberOfRows t n\<close>: \<open>Number of rows inserting to t: n\<close> (lines 148, 176)
  \<^item> \<open>InsertedRows n t\<close>: \<open>Inserted n rows into t\<close> (lines 161, 190)
  \<^item> \<open>InsertError (Some t) e\<close>: \<open>Error while inserting into Postgres table t\<close> and the error (line 163)
  \<^item> \<open>InsertError None e\<close>: \<open>Error while inserting into Postgres\<close> and the error (line 185)
  \<^item> \<open>ScriptCompleted\<close>: \<open>Script completed in d seconds.\<close> (line 198; the duration is not modelled)
  \<^item> \<open>PoolClientError e\<close>: \<open>PG Pool: Unexpected error on idle client\<close> and the error (line 52)
\<close>

datatype logline =
    QueryingAthena string
  | QueryFailed "string option"
  | QuerySucceeded
  | FinishedQuerying string
  | NumberOfRows string nat
  | InsertedRows nat string
  | InsertError "string option" error
  | ScriptCompleted
  | PoolClientError error

text \<open>
  The events of a run. A call to a service is recorded with its arguments and with
  what came back. \<open>Inl\<close> is the exception that the call raised; an answer without
  a field that the script reads raises a \<open>TypeError\<close> where the answer is read,
  which is the place of the call, and is an \<open>Inl\<close> as well. \<open>ProcessExit c\<close> is
  \<open>process.exit(c)\<close>. \<open>InsertBatchCalled\<close> and
  \<open>InsertCalled\<close> record the entry into \<open>insertIntoPostgresAsBatch\<close> and
  \<open>insertIntoPostgres\<close> with the arguments passed; they stand for no statement of
  the source and influence nothing. The database, catalog and output location of the
  Athena requests are constants of the run and are left out.
\<close>

datatype event =
    ConsoleLog logline
  | GetTableMetadataSent string "error + column list"
  | StartQueryExecutionSent string "error + string"
  | GetQueryExecutionSent string "error + queryExecutionStatus"
  | GetQueryResultsSent string "string option" "error + queryResults"
  | SetTimeout nat
  | InsertBatchCalled string "string list" "string option list list"
  | InsertCalled string "string list" "string option list list"
  | PoolConnectCalled "error + unit"
  | ClientQueryCalled string "string option list" "error + nat"
  | ClientRelease
  | ProcessExit int

type_synonym state = "event list"

text \<open>
  The environment of a run: the configuration and the two services.
  \<^item> \<open>getTableMetadata\<close> answers by table name; the lookups run concurrently and
    are taken to be independent of each other. \<open>responseTime\<close> is the time after
    which the lookup of a table is answered.
  \<^item> \<open>startQueryExecution\<close> answers by query string with an execution id.
  \<^item> \<open>getQueryExecution id i\<close> is the answer to the \<open>i\<close>-th poll (from 0) of an
    execution: its status changes with time.
  \<^item> \<open>getQueryResults id token\<close> is the page behind a continuation token.
  \<^item> \<open>poolConnect\<close> and \<open>clientQuery\<close> are the Postgres pool; what they answer may
    depend on everything that happened before (the history).
    \<open>clientQuery\<close> returns the \<open>rowCount\<close> of the response.
  \<^item> \<open>poolError h\<close> is the error with which the pool emits its \<open>error\<close> event
    while the script, with the history \<open>h\<close> behind it, waits; \<open>None\<close> when the
    pool emits none then.
\<close>

record world =
  DB_SCHEMA :: string
  glueTableNameList :: "string list"
  getTableMetadata :: "string \<Rightarrow> error + column list"
  startQueryExecution :: "string \<Rightarrow> error + string"
  getQueryExecution :: "string \<Rightarrow> nat \<Rightarrow> error + queryExecutionStatus"
  getQueryResults :: "string \<Rightarrow> string option \<Rightarrow> error + queryResults"
  poolConnect :: "state \<Rightarrow> error + unit"
  clientQuery :: "state \<Rightarrow> string \<Rightarrow> string option list \<Rightarrow> error + nat"
  responseTime :: "string \<Rightarrow> nat"
  poolError :: "state \<Rightarrow> error option"

text \<open>JavaScript truthiness of an optional string: \<open>undefined\<close> and \<open>""\<close> are falsy.\<close>

definition truthy :: "string option \<Rightarrow> bool" where
  "truthy t = (case t of None \<Rightarrow> False | Some v \<Rightarrow> v \<noteq> [])"

subsection \<open>insertIntoPostgresAsBatch (lines 147-167)\<close>

text \<open>\<open>rows[0]?.length\<close>: \<open>undefined\<close> for an empty batch.\<close>

definition columnsCountOf :: "'a list list \<Rightarrow> nat option" where
  "columnsCountOf rows = (case rows of [] \<Rightarrow> None | row # _ \<Rightarrow> Some (length row))"

text \<open>
  \<open>rowIndex * columnsCount + colIndex + 1\<close>; with \<open>columnsCount\<close> undefined the
  product is \<open>NaN\<close>, here \<open>None\<close>.
\<close>

definition placeholderIndex :: "nat option \<Rightarrow> nat \<Rightarrow> nat \<Rightarrow> nat option" where
  "placeholderIndex columnsCount rowIndex colIndex =
     (case columnsCount of None \<Rightarrow> None | Some c \<Rightarrow> Some (rowIndex * c + colIndex + 1))"

text \<open>The template literal \<open>`$${...}`\<close>.\<close>

definition placeholder :: "nat option \<Rightarrow> string" where
  "placeholder i = CHR ''$'' # (case i of None \<Rightarrow> ''NaN'' | Some n \<Rightarrow> decimal n)"

text \<open>The indices that \<open>row.map((_, colIndex) => ...)\<close> computes for one row.\<close>

definition rowPlaceholderIndices :: "nat option \<Rightarrow> nat \<Rightarrow> 'a list \<Rightarrow> nat option list" where
  "rowPlaceholderIndices columnsCount rowIndex row =
     map (\<lambda>(colIndex, _). placeholderIndex columnsCount rowIndex colIndex) (enumerate 0 row)"

definition rowPlaceholders :: "nat option \<Rightarrow> nat \<Rightarrow> 'a list \<Rightarrow> string" where
  "rowPlaceholders columnsCount rowIndex row =
     join '', '' (map placeholder (rowPlaceholderIndices columnsCount rowIndex row))"

text \<open>The indices of the whole batch, one list for each row, as \<open>rows.map\<close> visits them.\<close>

definition batchPlaceholderIndices :: "'a list list \<Rightarrow> nat option list list" where
  "batchPlaceholderIndices rows =
     map (\<lambda>(rowIndex, row). rowPlaceholderIndices (columnsCountOf rows) rowIndex row)
       (enumerate 0 rows)"

definition valuePlaceholders :: "'a list list \<Rightarrow> string" where
  "valuePlaceholders rows =
     join '', '' (map (\<lambda>(rowIndex, row).
        ''('' @ rowPlaceholders (columnsCountOf rows) rowIndex row @ '')'') (enumerate 0 rows))"

text \<open>\<open>values\<close> after \<open>values.push(...row)\<close> for every row.\<close>

definition batchValues :: "'a list list \<Rightarrow> 'a list" where
  "batchValues rows = concat rows"

definition batchQuery :: "string \<Rightarrow> string \<Rightarrow> string list \<Rightarrow> 'a list list \<Rightarrow> string" where
  "batchQuery schema tableName cols rows =
     ''INSERT INTO '' @ schema @ ''.'' @ tableName @ '' ('' @ join '', '' cols @ '') VALUES ''
       @ valuePlaceholders rows"

text \<open>
  \<open>pgPool.connect()\<close> is awaited outside the \<open>try\<close>: its exception leaves the
  function. The \<open>catch\<close> logs the exception of \<open>client.query\<close>; \<open>finally\<close>
  releases the client.
\<close>

definition insertIntoPostgresAsBatch ::
    "world \<Rightarrow> string \<Rightarrow> string list \<Rightarrow> string option list list \<Rightarrow> state \<Rightarrow> outcome \<times> state" where
  "insertIntoPostgresAsBatch w tableName cols rows s =
     (let s1 = s @ [InsertBatchCalled tableName cols rows,
                    ConsoleLog (NumberOfRows tableName (length rows))];
          query = batchQuery (DB_SCHEMA w) tableName cols rows;
          vals = batchValues rows
      in case poolConnect w s1 of
           Inl e \<Rightarrow> (Thrown e, s1 @ [PoolConnectCalled (Inl e)])
         | Inr client \<Rightarrow>
             (let s2 = s1 @ [PoolConnectCalled (Inr client)]
              in case clientQuery w s2 query vals of
                   Inr rowCount \<Rightarrow>
                     (Returned, s2 @ [ClientQueryCalled query vals (Inr rowCount),
                                      ConsoleLog (InsertedRows rowCount tableName),
                                      ClientRelease])
                 | Inl e \<Rightarrow>
                     (Returned, s2 @ [ClientQueryCalled query vals (Inl e),
                                      ConsoleLog (InsertError (Some tableName) e),
                                      ClientRelease])))"

subsection \<open>insertIntoPostgres (lines 175-191)\<close>

text \<open>The row-by-row loader; the script does not call it.\<close>

definition rowQuery :: "string \<Rightarrow> string \<Rightarrow> string list \<Rightarrow> string" where
  "rowQuery schema tableName cols =
     ''INSERT INTO '' @ schema @ ''.'' @ tableName @ '' ('' @ join '', '' cols @ '') VALUES (''
       @ join '', '' (map (\<lambda>(idx, _). placeholder (Some (idx + 1))) (enumerate 0 cols)) @ '')''"

fun insertRows :: "world \<Rightarrow> string \<Rightarrow> string list \<Rightarrow> string option list list \<Rightarrow> state \<Rightarrow> outcome \<times> state" where
  "insertRows w tableName cols [] s = (Returned, s)"
| "insertRows w tableName cols (row # rows) s =
     (let query = rowQuery (DB_SCHEMA w) tableName cols
      in case poolConnect w s of
           Inl e \<Rightarrow> (Thrown e, s @ [PoolConnectCalled (Inl e)])
         | Inr client \<Rightarrow>
             (let s2 = s @ [PoolConnectCalled (Inr client)]
              in case clientQuery w s2 query row of
                   Inr rowCount \<Rightarrow>
                     insertRows w tableName cols rows
                       (s2 @ [ClientQueryCalled query row (Inr rowCount), ClientRelease])
                 | Inl e \<Rightarrow>
                     insertRows w tableName cols rows
                       (s2 @ [ClientQueryCalled query row (Inl e),
                              ConsoleLog (InsertError None e), ClientRelease])))"

definition insertIntoPostgres ::
    "world \<Rightarrow> string \<Rightarrow> string list \<Rightarrow> string option list list \<Rightarrow> state \<Rightarrow> outcome \<times> state" where
  "insertIntoPostgres w tableName cols rows s =
     (case insertRows w tableName cols rows
             (s @ [InsertCalled tableName cols rows,
                   ConsoleLog (NumberOfRows tableName (length rows))]) of
        (Thrown e, s1) \<Rightarrow> (Thrown e, s1)
      | (Returned, s1) \<Rightarrow> (Returned, s1 @ [ConsoleLog (InsertedRows (length rows) tableName)]))"

subsection \<open>queryAthena (lines 94-145)\<close>

text \<open>\<open>row => row.Data.map(data => data.VarCharValue)\<close>\<close>

definition rowValues :: "athenaRow \<Rightarrow> string option list" where
  "rowValues row = map VarCharValue (Data row)"

text \<open>
  Lines 130-135: the rows of a page that go to the loader. Without a token
  (\<open>!nextToken\<close>) the first row, the column names, is sliced off.
\<close>

definition pageRows :: "string option \<Rightarrow> queryResults \<Rightarrow> string option list list" where
  "pageRows nextToken resultsResponse =
     (if \<not> truthy nextToken then map rowValues (drop 1 (Rows resultsResponse))
      else [] @ map rowValues (Rows resultsResponse))"

text \<open>
  The \<open>do ... while (nextToken)\<close> loop of lines 124-138, entered with
  \<open>nextToken\<close> undefined. The first argument is the fuel: the number of pages the
  loop may still fetch.
\<close>

fun fetchResults ::
    "nat \<Rightarrow> world \<Rightarrow> string \<Rightarrow> string \<Rightarrow> string list \<Rightarrow> string option \<Rightarrow> state
       \<Rightarrow> (outcome \<times> state) option" where
  "fetchResults 0 w qid pgTableName cols nextToken s = None"
| "fetchResults (Suc n) w qid pgTableName cols nextToken s =
     (case getQueryResults w qid nextToken of
        Inl e \<Rightarrow> Some (Thrown e, s @ [GetQueryResultsSent qid nextToken (Inl e)])
      | Inr resultsResponse \<Rightarrow>
          (case insertIntoPostgresAsBatch w pgTableName cols (pageRows nextToken resultsResponse)
                  (s @ [GetQueryResultsSent qid nextToken (Inr resultsResponse)]) of
             (Thrown e, s2) \<Rightarrow> Some (Thrown e, s2)
           | (Returned, s2) \<Rightarrow>
               if truthy (NextToken resultsResponse)
               then fetchResults n w qid pgTableName cols (NextToken resultsResponse) s2
               else Some (Returned, s2)))"

text \<open>
  The \<open>while (true)\<close> loop of lines 114-143. \<open>pages\<close> is the fuel of the paging
  loop inside, the second argument the fuel of this loop (the polls it may still
  make), \<open>i\<close> the number of polls made so far.
\<close>

fun pollExecution ::
    "nat \<Rightarrow> nat \<Rightarrow> world \<Rightarrow> string \<Rightarrow> string \<Rightarrow> string list \<Rightarrow> nat \<Rightarrow> state
       \<Rightarrow> (outcome \<times> state) option" where
  "pollExecution pages 0 w qid pgTableName cols i s = None"
| "pollExecution pages (Suc n) w qid pgTableName cols i s =
     (case getQueryExecution w qid i of
        Inl e \<Rightarrow> Some (Thrown e, s @ [GetQueryExecutionSent qid (Inl e)])
      | Inr response \<Rightarrow>
          (let s1 = s @ [GetQueryExecutionSent qid (Inr response)]
           in if State response = ''FAILED''
              then Some (Returned, s1 @ [ConsoleLog (QueryFailed (StateChangeReason response))])
              else if State response = ''SUCCEEDED''
              then fetchResults pages w qid pgTableName cols None
                     (s1 @ [ConsoleLog QuerySucceeded])
              else pollExecution pages n w qid pgTableName cols (Suc i) (s1 @ [SetTimeout 5000])))"

definition queryString :: "string list \<Rightarrow> string \<Rightarrow> string" where
  "queryString cols athTableName = ''SELECT '' @ join '', '' cols @ '' FROM '' @ athTableName"

definition queryAthena ::
    "nat \<Rightarrow> world \<Rightarrow> string \<Rightarrow> string \<Rightarrow> string list \<Rightarrow> state \<Rightarrow> (outcome \<times> state) option" where
  "queryAthena fuel w athTableName pgTableName cols s =
     (let s1 = s @ [ConsoleLog (QueryingAthena athTableName)];
          q = queryString cols athTableName
      in case startQueryExecution w q of
           Inl e \<Rightarrow> Some (Thrown e, s1 @ [StartQueryExecutionSent q (Inl e)])
         | Inr qid \<Rightarrow>
             (case pollExecution fuel fuel w qid pgTableName cols 0
                     (s1 @ [StartQueryExecutionSent q (Inr qid)]) of
                None \<Rightarrow> None
              | Some (Thrown e, s2) \<Rightarrow> Some (Thrown e, s2)
              | Some (Returned, s2) \<Rightarrow>
                  Some (Returned, s2 @ [ConsoleLog (FinishedQuerying athTableName)])))"

subsection \<open>insertTablesInOrder (lines 73-91) and the top level (lines 194-198)\<close>

text \<open>
  The body of the \<open>async\<close> function mapped over the table names, after its request
  was answered: \<open>pgName\<close> is \<open>tableName.substring(6)\<close>.
\<close>

definition tableOf :: "world \<Rightarrow> string \<Rightarrow> error + tableEntry" where
  "tableOf w tableName =
     (case getTableMetadata w tableName of
        Inl e \<Rightarrow> Inl e
      | Inr cs \<Rightarrow> Inr \<lparr>athName = tableName, pgName = drop 6 tableName, columns = map Name cs\<rparr>)"

text \<open>
  \<open>Promise.all\<close> over promises that each settle at a time of their own: when all
  are fulfilled, the values in the order of the promises; otherwise the rejection
  that settles first (of rejections that settle at the same time, the one of the
  earlier promise).
\<close>

fun rejections :: "(nat \<times> (error + 'a)) list \<Rightarrow> (nat \<times> error) list" where
  "rejections [] = []"
| "rejections ((t, Inl e) # ps) = (t, e) # rejections ps"
| "rejections ((t, Inr v) # ps) = rejections ps"

fun fulfilments :: "(nat \<times> (error + 'a)) list \<Rightarrow> 'a list" where
  "fulfilments [] = []"
| "fulfilments ((t, Inl e) # ps) = fulfilments ps"
| "fulfilments ((t, Inr v) # ps) = v # fulfilments ps"

fun earliest :: "nat \<times> error \<Rightarrow> (nat \<times> error) list \<Rightarrow> error" where
  "earliest (t, e) [] = e"
| "earliest (t, e) ((t', e') # rs) =
     (if t' < t then earliest (t', e') rs else earliest (t, e) rs)"

definition promiseAll :: "(nat \<times> (error + 'a)) list \<Rightarrow> error + 'a list" where
  "promiseAll ps =
     (case rejections ps of
        [] \<Rightarrow> Inr (fulfilments ps)
      | r # rs \<Rightarrow> Inl (earliest r rs))"

text \<open>The \<open>for ... of\<close> loop of lines 88-90.\<close>

fun forTables :: "nat \<Rightarrow> world \<Rightarrow> tableEntry list \<Rightarrow> state \<Rightarrow> (outcome \<times> state) option" where
  "forTables fuel w [] s = Some (Returned, s)"
| "forTables fuel w (t # ts) s =
     (case queryAthena fuel w (athName t) (pgName t) (columns t) s of
        None \<Rightarrow> None
      | Some (Thrown e, s1) \<Rightarrow> Some (Thrown e, s1)
      | Some (Returned, s1) \<Rightarrow> forTables fuel w ts s1)"

text \<open>
  \<open>map\<close> starts every lookup (each request is sent before any answer is awaited),
  \<open>Promise.all\<close> joins them, and only then the loop runs. The history lists
  every lookup with the answer of the service, also the lookups whose answer comes
  after \<open>Promise.all\<close> has rejected.
\<close>

definition metadataEvents :: "world \<Rightarrow> event list" where
  "metadataEvents w = map (\<lambda>n. GetTableMetadataSent n (getTableMetadata w n)) (glueTableNameList w)"

text \<open>The promises that \<open>map\<close> returns, each with the time at which it settles.\<close>

definition lookups :: "world \<Rightarrow> (nat \<times> (error + tableEntry)) list" where
  "lookups w = map (\<lambda>n. (responseTime w n, tableOf w n)) (glueTableNameList w)"

definition insertTablesInOrder :: "nat \<Rightarrow> world \<Rightarrow> state \<Rightarrow> (outcome \<times> state) option" where
  "insertTablesInOrder fuel w s =
     (let s1 = s @ metadataEvents w
      in case promiseAll (lookups w) of
           Inl e \<Rightarrow> Some (Thrown e, s1)
         | Inr tablesWithColumns \<Rightarrow> forTables fuel w tablesWithColumns s1)"

subsection \<open>The history of a run that has not ended\<close>

text \<open>
  The functions above give \<open>None\<close> for a run that is still in a loop when the
  fuel is used up. The functions below are the same functions, except that they
  keep the history that such a run has made so far: they return how the run ended,
  or \<open>None\<close> when the fuel has cut it, and in both cases the history.
\<close>

fun fetchResultsH ::
    "nat \<Rightarrow> world \<Rightarrow> string \<Rightarrow> string \<Rightarrow> string list \<Rightarrow> string option \<Rightarrow> state
       \<Rightarrow> outcome option \<times> state" where
  "fetchResultsH 0 w qid pgTableName cols nextToken s = (None, s)"
| "fetchResultsH (Suc n) w qid pgTableName cols nextToken s =
     (case getQueryResults w qid nextToken of
        Inl e \<Rightarrow> (Some (Thrown e), s @ [GetQueryResultsSent qid nextToken (Inl e)])
      | Inr resultsResponse \<Rightarrow>
          (case insertIntoPostgresAsBatch w pgTableName cols (pageRows nextToken resultsResponse)
                  (s @ [GetQueryResultsSent qid nextToken (Inr resultsResponse)]) of
             (Thrown e, s2) \<Rightarrow> (Some (Thrown e), s2)
           | (Returned, s2) \<Rightarrow>
               if truthy (NextToken resultsResponse)
               then fetchResultsH n w qid pgTableName cols (NextToken resultsResponse) s2
               else (Some Returned, s2)))"

fun pollExecutionH ::
    "nat \<Rightarrow> nat \<Rightarrow> world \<Rightarrow> string \<Rightarrow> string \<Rightarrow> string list \<Rightarrow> nat \<Rightarrow> state
       \<Rightarrow> outcome option \<times> state" where
  "pollExecutionH pages 0 w qid pgTableName cols i s = (None, s)"
| "pollExecutionH pages (Suc n) w qid pgTableName cols i s =
     (case getQueryExecution w qid i of
        Inl e \<Rightarrow> (Some (Thrown e), s @ [GetQueryExecutionSent qid (Inl e)])
      | Inr response \<Rightarrow>
          (let s1 = s @ [GetQueryExecutionSent qid (Inr response)]
           in if State response = ''FAILED''
              then (Some Returned, s1 @ [ConsoleLog (QueryFailed (StateChangeReason response))])
              else if State response = ''SUCCEEDED''
              then fetchResultsH pages w qid pgTableName cols None
                     (s1 @ [ConsoleLog QuerySucceeded])
              else pollExecutionH pages n w qid pgTableName cols (Suc i) (s1 @ [SetTimeout 5000])))"

definition queryAthenaH ::
    "nat \<Rightarrow> world \<Rightarrow> string \<Rightarrow> string \<Rightarrow> string list \<Rightarrow> state \<Rightarrow> outcome option \<times> state" where
  "queryAthenaH fuel w athTableName pgTableName cols s =
     (let s1 = s @ [ConsoleLog (QueryingAthena athTableName)];
          q = queryString cols athTableName
      in case startQueryExecution w q of
           Inl e \<Rightarrow> (Some (Thrown e), s1 @ [StartQueryExecutionSent q (Inl e)])
         | Inr qid \<Rightarrow>
             (case pollExecutionH fuel fuel w qid pgTableName cols 0
                     (s1 @ [StartQueryExecutionSent q (Inr qid)]) of
                (Some Returned, s2) \<Rightarrow>
                  (Some Returned, s2 @ [ConsoleLog (FinishedQuerying athTableName)])
              | (ending, s2) \<Rightarrow> (ending, s2)))"

fun forTablesH :: "nat \<Rightarrow> world \<Rightarrow> tableEntry list \<Rightarrow> state \<Rightarrow> outcome option \<times> state" where
  "forTablesH fuel w [] s = (Some Returned, s)"
| "forTablesH fuel w (t # ts) s =
     (case queryAthenaH fuel w (athName t) (pgName t) (columns t) s of
        (Some Returned, s1) \<Rightarrow> forTablesH fuel w ts s1
      | (ending, s1) \<Rightarrow> (ending, s1))"

definition insertTablesInOrderH :: "nat \<Rightarrow> world \<Rightarrow> state \<Rightarrow> outcome option \<times> state" where
  "insertTablesInOrderH fuel w s =
     (let s1 = s @ metadataEvents w
      in case promiseAll (lookups w) of
           Inl e \<Rightarrow> (Some (Thrown e), s1)
         | Inr tablesWithColumns \<Rightarrow> forTablesH fuel w tablesWithColumns s1)"

text \<open>The run that has ended, as the functions of the sections before give it.\<close>

fun ended :: "outcome option \<times> state \<Rightarrow> (outcome \<times> state) option" where
  "ended (None, s) = None"
| "ended (Some out, s) = Some (out, s)"

subsection \<open>The process (lines 51-54 and 194-198)\<close>

text \<open>
  The events for which the script waits: the event loop runs while an \<open>await\<close>
  is pending, and with it the handler of the pool's \<open>error\<close> event. Log lines, the
  release of a client and the entry into the loader are not waited for.
\<close>

fun awaited :: "event \<Rightarrow> bool" where
  "awaited (ConsoleLog l) = False"
| "awaited (InsertBatchCalled t cs rows) = False"
| "awaited (InsertCalled t cs rows) = False"
| "awaited ClientRelease = False"
| "awaited (ProcessExit c) = False"
| "awaited ev = True"

text \<open>
  \<open>interrupted w h evs\<close>: the run has the history \<open>h\<close> behind it and, undisturbed,
  would go on with the events \<open>evs\<close>. The result is the history at which the pool
  first emits its \<open>error\<close> event while the script waits, with the error, or \<open>None\<close>
  when the pool emits none before the last of \<open>evs\<close>.
\<close>

fun interrupted :: "world \<Rightarrow> state \<Rightarrow> event list \<Rightarrow> (state \<times> error) option" where
  "interrupted w h [] = None"
| "interrupted w h (ev # evs) =
     (if awaited ev
      then (case poolError w h of
              Some e \<Rightarrow> Some (h, e)
            | None \<Rightarrow> interrupted w (h @ [ev]) evs)
      else interrupted w (h @ [ev]) evs)"

text \<open>The handler of lines 51-54: it logs the error and calls \<open>process.exit(-1)\<close>.\<close>

definition poolErrorHandler :: "error \<Rightarrow> state \<Rightarrow> state" where
  "poolErrorHandler e h = h @ [ConsoleLog (PoolClientError e), ProcessExit (- 1)]"

text \<open>
  The module's top level awaits \<open>insertTablesInOrder\<close> and logs the duration (the
  two log lines at the start, with the time and the process id, are left out). The
  result is the exit code of the process with its history, or \<open>None\<close> for a
  process that is still running when the fuel is used up.
  \<^item> The script never sets an exit code: Node ends with 0 when the top level
    completes and with 1 when an exception leaves it.
  \<^item> The pool's \<open>error\<close> event ends the process wherever the script waits, and
    also after the top level has completed, while idle clients keep the process
    alive. \<open>process.exit(-1)\<close> gives the exit code 255 (the low byte of -1).
\<close>

definition main :: "nat \<Rightarrow> world \<Rightarrow> (int \<times> state) option" where
  "main fuel w =
     (let (ending, s) = insertTablesInOrderH fuel w [];
          h = (if ending = Some Returned then s @ [ConsoleLog ScriptCompleted] else s)
      in case interrupted w [] h of
           Some (h1, e) \<Rightarrow> Some (255, poolErrorHandler e h1)
         | None \<Rightarrow>
             (case ending of
                None \<Rightarrow> None
              | Some (Thrown e) \<Rightarrow> Some (1, h)
              | Some Returned \<Rightarrow>
                  (case poolError w h of
                     Some e \<Rightarrow> Some (255, poolErrorHandler e h)
                   | None \<Rightarrow> Some (0, h))))"

subsection \<open>Reading a decimal text back\<close>

text \<open>The number a decimal text stands for; it shows that \<open>decimal\<close> loses nothing.\<close>

definition decimalValue :: "string \<Rightarrow> nat" where
  "decimalValue ds = foldl (\<lambda>a ch. 10 * a + (of_char ch - 48)) 0 ds"

subsection \<open>Observations on a history\<close>

text \<open>The row sets passed to \<open>insertIntoPostgresAsBatch\<close>, in the order of the calls.\<close>

fun handed :: "event \<Rightarrow> string option list list list" where
  "handed (InsertBatchCalled t cs rows) = [rows]"
| "handed _ = []"

definition batchesHanded :: "event list \<Rightarrow> string option list list list" where
  "batchesHanded evs = concat (map handed evs)"

text \<open>The pages that came back, each with the continuation token of its request.\<close>

fun fetched :: "event \<Rightarrow> (string option \<times> queryResults) list" where
  "fetched (GetQueryResultsSent qid tok (Inr r)) = [(tok, r)]"
| "fetched _ = []"

definition pagesFetched :: "event list \<Rightarrow> (string option \<times> queryResults) list" where
  "pagesFetched evs = concat (map fetched evs)"

text \<open>All rows of a page, as the loader would get them unmodified.\<close>

definition allRows :: "queryResults \<Rightarrow> string option list list" where
  "allRows r = map rowValues (Rows r)"

text \<open>
  The service holds the result of an execution as the finite sequence \<open>pages\<close>:
  the page behind \<open>tok\<close> is the first of them, and each page but the last carries
  the token of the next.
\<close>

fun servedPages :: "world \<Rightarrow> string \<Rightarrow> string option \<Rightarrow> queryResults list \<Rightarrow> bool" where
  "servedPages w qid tok [] = False"
| "servedPages w qid tok (p # ps) =
     (getQueryResults w qid tok = Inr p \<and>
      (if truthy (NextToken p) then servedPages w qid (NextToken p) ps else ps = []))"

text \<open>
  \<open>continues r r'\<close>: the run \<open>r'\<close> is the run \<open>r\<close> with more fuel. It is the same
  run when \<open>r\<close> has ended, and it has gone on from the history of \<open>r\<close> when the fuel
  had cut \<open>r\<close>.
\<close>

definition continues :: "outcome option \<times> state \<Rightarrow> outcome option \<times> state \<Rightarrow> bool" where
  "continues r r' = (case fst r of Some out \<Rightarrow> r' = r | None \<Rightarrow> prefix (snd r) (snd r'))"

text \<open>The \<open>INSERT\<close> statements sent to the database, in order.\<close>

fun statement :: "event \<Rightarrow> string list" where
  "statement (ClientQueryCalled q vs r) = [q]"
| "statement _ = []"

definition insertStatements :: "event list \<Rightarrow> string list" where
  "insertStatements evs = concat (map statement evs)"

text \<open>
  The \<open>j\<close>-th poll of an execution answers with a state that is neither \<open>FAILED\<close>
  nor \<open>SUCCEEDED\<close>: the execution is still queued or running.
\<close>

definition pending :: "world \<Rightarrow> string \<Rightarrow> nat \<Rightarrow> bool" where
  "pending w qid j =
     (case getQueryExecution w qid j of
        Inl e \<Rightarrow> False
      | Inr r \<Rightarrow> State r \<noteq> ''FAILED'' \<and> State r \<noteq> ''SUCCEEDED'')"

text \<open>The events of the polls \<open>i, ..., k - 1\<close> of a pending execution, each followed by the wait.\<close>

definition pendingPolls :: "world \<Rightarrow> string \<Rightarrow> nat \<Rightarrow> nat \<Rightarrow> event list" where
  "pendingPolls w qid i k =
     concat (map (\<lambda>j. [GetQueryExecutionSent qid (getQueryExecution w qid j), SetTimeout 5000]) [i..<k])"

text \<open>The executions that a poll found \<open>FAILED\<close>.\<close>

fun failedPoll :: "event \<Rightarrow> string list" where
  "failedPoll (GetQueryExecutionSent qid (Inr r)) = (if State r = ''FAILED'' then [qid] else [])"
| "failedPoll _ = []"

definition failedExecutions :: "event list \<Rightarrow> string list" where
  "failedExecutions evs = concat (map failedPoll evs)"

text \<open>
  An exception that nothing catches: a request to Athena or \<open>pgPool.connect()\<close>
  threw. (The exception of \<open>client.query\<close> is caught in the loader.)
\<close>

fun escaped :: "event \<Rightarrow> bool" where
  "escaped (GetTableMetadataSent n (Inl e)) = True"
| "escaped (StartQueryExecutionSent q (Inl e)) = True"
| "escaped (GetQueryExecutionSent qid (Inl e)) = True"
| "escaped (GetQueryResultsSent qid tok (Inl e)) = True"
| "escaped (PoolConnectCalled (Inl e)) = True"
| "escaped _ = False"

text \<open>The exception that an event raised in the script, if it raised one that nothing catches.\<close>

fun raised :: "event \<Rightarrow> error option" where
  "raised (GetTableMetadataSent n (Inl e)) = Some e"
| "raised (StartQueryExecutionSent q (Inl e)) = Some e"
| "raised (GetQueryExecutionSent qid (Inl e)) = Some e"
| "raised (GetQueryResultsSent qid tok (Inl e)) = Some e"
| "raised (PoolConnectCalled (Inl e)) = Some e"
| "raised _ = None"

text \<open>
  \<open>stopsWith e new\<close>: the events \<open>new\<close> end with the call that raised \<open>e\<close>, and no
  call before it raised an exception that nothing catches.
\<close>

definition stopsWith :: "error \<Rightarrow> event list \<Rightarrow> bool" where
  "stopsWith e new =
     (case rev new of
        [] \<Rightarrow> False
      | ev # before \<Rightarrow> raised ev = Some e \<and> \<not> list_ex escaped before)"

text \<open>
  How a piece of the script that ended with \<open>out\<close> left the history: it returned
  and nothing in \<open>new\<close> raised an exception, or it threw \<open>e\<close> and \<open>new\<close> stops
  with the call that raised \<open>e\<close>.
\<close>

fun endsAs :: "outcome \<Rightarrow> event list \<Rightarrow> bool" where
  "endsAs Returned new = (\<not> list_ex escaped new)"
| "endsAs (Thrown e) new = stopsWith e new"

text \<open>The process was ended by \<open>process.exit\<close>.\<close>

fun exited :: "event \<Rightarrow> bool" where
  "exited (ProcessExit c) = True"
| "exited _ = False"

text \<open>
  \<open>firstRejected w e\<close>: \<open>e\<close> is the error of a metadata lookup that was rejected,
  and no rejected lookup settled before it.
\<close>

definition firstRejected :: "world \<Rightarrow> error \<Rightarrow> bool" where
  "firstRejected w e =
     list_ex (\<lambda>n. getTableMetadata w n = Inl e \<and>
                list_all (\<lambda>m. case getTableMetadata w m of
                                 Inl e' \<Rightarrow> responseTime w n \<le> responseTime w m
                               | Inr cs \<Rightarrow> True)
                         (glueTableNameList w))
             (glueTableNameList w)"

text \<open>The lookups of column metadata.\<close>

fun metadataLookup :: "event \<Rightarrow> bool" where
  "metadataLookup (GetTableMetadataSent n r) = True"
| "metadataLookup _ = False"

text \<open>
  The steps that mark the work on a table: the opening log line of \<open>queryAthena\<close>,
  the submission of the query, the closing log line.
\<close>

fun tableStep :: "event \<Rightarrow> bool" where
  "tableStep (ConsoleLog (QueryingAthena n)) = True"
| "tableStep (ConsoleLog (FinishedQuerying n)) = True"
| "tableStep (StartQueryExecutionSent q r) = True"
| "tableStep _ = False"

definition stepsOf :: "world \<Rightarrow> tableEntry \<Rightarrow> event list" where
  "stepsOf w t =
     [ConsoleLog (QueryingAthena (athName t)),
      StartQueryExecutionSent (queryString (columns t) (athName t))
        (startQueryExecution w (queryString (columns t) (athName t))),
      ConsoleLog (FinishedQuerying (athName t))]"

text \<open>
  What may happen between the submission of a table's query and the closing log
  line: polls, waits, page fetches, and loader calls, statements and log lines that
  name the target table of this entry.
\<close>

fun inTable :: "string \<Rightarrow> tableEntry \<Rightarrow> event \<Rightarrow> bool" where
  "inTable schema t (InsertBatchCalled tn cs rows) = (tn = pgName t \<and> cs = columns t)"
| "inTable schema t (ClientQueryCalled q vs r) =
     prefix (''INSERT INTO '' @ schema @ ''.'' @ pgName t @ '' ('') q"
| "inTable schema t (ConsoleLog (QueryingAthena n)) = False"
| "inTable schema t (ConsoleLog (FinishedQuerying n)) = False"
| "inTable schema t (ConsoleLog ScriptCompleted) = False"
| "inTable schema t (ConsoleLog (PoolClientError e)) = False"
| "inTable schema t (ProcessExit c) = False"
| "inTable schema t (ConsoleLog (NumberOfRows tn n)) = (tn = pgName t)"
| "inTable schema t (ConsoleLog (InsertedRows n tn)) = (tn = pgName t)"
| "inTable schema t (ConsoleLog (InsertError tn e)) = (tn = Some (pgName t))"
| "inTable schema t (ConsoleLog (QueryFailed r)) = True"
| "inTable schema t (ConsoleLog QuerySucceeded) = True"
| "inTable schema t (GetTableMetadataSent n r) = False"
| "inTable schema t (StartQueryExecutionSent q r) = False"
| "inTable schema t (InsertCalled tn cs rows) = False"
| "inTable schema t (GetQueryExecutionSent qid r) = True"
| "inTable schema t (GetQueryResultsSent qid tok r) = True"
| "inTable schema t (SetTimeout ms) = True"
| "inTable schema t (PoolConnectCalled r) = True"
| "inTable schema t ClientRelease = True"

text \<open>
  The part of a history that belongs to the source table \<open>n\<close>: it opens with the log
  line of \<open>queryAthena\<close> for \<open>n\<close> and holds no other opening line; every call of the
  loader in it names the table \<open>n.substring(6)\<close>, and every statement in it starts
  with \<open>INSERT INTO schema.\<close> and that name.
\<close>

fun targets :: "string \<Rightarrow> string \<Rightarrow> event \<Rightarrow> bool" where
  "targets schema n (InsertBatchCalled tn cs rows) = (tn = drop 6 n)"
| "targets schema n (ClientQueryCalled q vs r) =
     prefix (''INSERT INTO '' @ schema @ ''.'' @ drop 6 n @ '' ('') q"
| "targets schema n (ConsoleLog (QueryingAthena m)) = False"
| "targets schema n ev = True"

definition tableSegment :: "string \<Rightarrow> string \<Rightarrow> event list \<Rightarrow> bool" where
  "tableSegment schema n seg =
     (case seg of
        [] \<Rightarrow> False
      | ev # evs \<Rightarrow> ev = ConsoleLog (QueryingAthena n) \<and> list_all (targets schema n) evs)"

text \<open>The requests about an execution name the execution \<open>qid\<close>.\<close>

fun ofExecution :: "string \<Rightarrow> event \<Rightarrow> bool" where
  "ofExecution qid (GetQueryExecutionSent q r) = (q = qid)"
| "ofExecution qid (GetQueryResultsSent q tok r) = (q = qid)"
| "ofExecution qid ev = True"

text \<open>
  \<open>loads w t out mid\<close>: the events \<open>mid\<close> are the loading of the table \<open>t\<close>, ended
  with \<open>out\<close>. They belong to the table; every page that came back was handed to the
  loader, in order (the page without token less its first row); the statements sent
  are the batch statements for the row sets handed over, in order, one for each row
  set, except that the last row set has none when \<open>connect\<close> was refused for it.
\<close>

definition loads :: "world \<Rightarrow> tableEntry \<Rightarrow> outcome \<Rightarrow> event list \<Rightarrow> bool" where
  "loads w t out mid =
     (list_all (inTable (DB_SCHEMA w) t) mid \<and>
      batchesHanded mid = map (\<lambda>(tok, r). pageRows tok r) (pagesFetched mid) \<and>
      prefix (insertStatements mid)
        (map (batchQuery (DB_SCHEMA w) (pgName t) (columns t)) (batchesHanded mid)) \<and>
      length (batchesHanded mid) \<le> Suc (length (insertStatements mid)) \<and>
      (out = Returned \<longrightarrow>
         insertStatements mid =
           map (batchQuery (DB_SCHEMA w) (pgName t) (columns t)) (batchesHanded mid)))"

text \<open>
  \<open>extracted w qid mid\<close>: the events \<open>mid\<close> are a complete extraction of the
  execution \<open>qid\<close>. For some \<open>k\<close>, the first \<open>k\<close> polls found the execution pending,
  each followed by the wait, and poll \<open>k\<close> found it
  \<^item> \<open>FAILED\<close>: the log line with the reason follows, and nothing else;
  \<^item> or \<open>SUCCEEDED\<close>: the log line follows, and then the pages that came back are
    all the pages that the service holds for the execution, from the page without
    token to the page without a further token.
\<close>

definition extracted :: "world \<Rightarrow> string \<Rightarrow> event list \<Rightarrow> bool" where
  "extracted w qid mid =
     list_ex (\<lambda>k.
        list_all (pending w qid) [0..<k] \<and>
        (case getQueryExecution w qid k of
           Inl e \<Rightarrow> False
         | Inr r \<Rightarrow>
             if State r = ''FAILED''
             then mid = pendingPolls w qid 0 k @
                    [GetQueryExecutionSent qid (Inr r), ConsoleLog (QueryFailed (StateChangeReason r))]
             else State r = ''SUCCEEDED'' \<and>
                  take (2 * k + 2) mid = pendingPolls w qid 0 k @
                    [GetQueryExecutionSent qid (Inr r), ConsoleLog QuerySucceeded] \<and>
                  servedPages w qid None (map snd (pagesFetched (drop (2 * k + 2) mid)))))
       [0..<length mid]"

text \<open>
  \<open>tableRun w t out seg\<close>: the events \<open>seg\<close> are one call of \<open>queryAthena\<close> for the
  entry \<open>t\<close> that ended with \<open>out\<close>: the opening log line, the submission, the
  loading of the table with the requests about the submitted execution, and, when
  the call returned, the closing log line. The call returned, no request or
  \<open>connect\<close> in \<open>seg\<close> raised and the extraction is complete, or it threw and
  \<open>seg\<close> stops at the call that raised.
\<close>

definition tableRun :: "world \<Rightarrow> tableEntry \<Rightarrow> outcome \<Rightarrow> event list \<Rightarrow> bool" where
  "tableRun w t out seg =
     (let mid = (if out = Returned then butlast (drop 2 seg) else drop 2 seg)
      in seg = take 2 (stepsOf w t) @ mid @ (if out = Returned then drop 2 (stepsOf w t) else []) \<and>
         loads w t out mid \<and>
         (case startQueryExecution w (queryString (columns t) (athName t)) of
            Inl e \<Rightarrow> mid = [] \<and> out = Thrown e
          | Inr qid \<Rightarrow>
              list_all (ofExecution qid) mid \<and> (out = Returned \<longrightarrow> extracted w qid mid)) \<and>
         endsAs out seg)"

text \<open>
  \<open>tableRuns w out tables segs\<close>: the events \<open>segs\<close> are the loop over \<open>tables\<close>
  that ended with \<open>out\<close>, one call of \<open>queryAthena\<close> after the other: each call but
  the last returned, and the last is the call for the last table when the loop
  returned, and the call that threw when the loop threw.
\<close>

fun tableRuns :: "world \<Rightarrow> outcome \<Rightarrow> tableEntry list \<Rightarrow> event list list \<Rightarrow> bool" where
  "tableRuns w out [] segs = (segs = [] \<and> out = Returned)"
| "tableRuns w out (t # ts) [] = False"
| "tableRuns w out (t # ts) [seg] =
     (if out = Returned then ts = [] \<and> tableRun w t Returned seg else tableRun w t out seg)"
| "tableRuns w out (t # ts) (seg # segs) = (tableRun w t Returned seg \<and> tableRuns w out ts segs)"

subsection \<open>Example runs\<close>

text \<open>
  Two configured tables. \<open>glue_table1\<close> has the columns \<open>id\<close> and \<open>name\<close>; its
  query succeeds at the third poll and delivers two pages: the column names and two
  rows, then one more row. \<open>glue_table2\<close> has the column \<open>id\<close> and no rows: its
  only page holds the column names. The database accepts a statement that has
  parameters and answers with the number of its value tuples; it rejects a statement
  without parameters, as Postgres rejects \<open>VALUES\<close> with nothing after it. The pool
  always hands out a client and emits no \<open>error\<close> event.
\<close>

definition cell :: "string \<Rightarrow> datum" where
  "cell v = \<lparr>VarCharValue = Some v\<rparr>"

definition page1 :: queryResults where
  "page1 = \<lparr>Rows = [\<lparr>Data = [cell ''id'', cell ''name'']\<rparr>,
                     \<lparr>Data = [cell ''1'', cell ''alice'']\<rparr>,
                     \<lparr>Data = [cell ''2'', cell ''bob'']\<rparr>],
            NextToken = Some ''t1''\<rparr>"

definition page2 :: queryResults where
  "page2 = \<lparr>Rows = [\<lparr>Data = [cell ''3'', cell ''carol'']\<rparr>], NextToken = None\<rparr>"

definition headerOnly :: queryResults where
  "headerOnly = \<lparr>Rows = [\<lparr>Data = [cell ''id'']\<rparr>], NextToken = None\<rparr>"

definition exampleWorld :: world where
  "exampleWorld =
     \<lparr>DB_SCHEMA = ''public'',
      glueTableNameList = [''glue_table1'', ''glue_table2''],
      getTableMetadata = (\<lambda>n.
        if n = ''glue_table1'' then Inr [\<lparr>Name = ''id''\<rparr>, \<lparr>Name = ''name''\<rparr>]
        else if n = ''glue_table2'' then Inr [\<lparr>Name = ''id''\<rparr>]
        else Inl (Error ''EntityNotFoundException'')),
      startQueryExecution = (\<lambda>q.
        if q = ''SELECT id, name FROM glue_table1'' then Inr ''q1''
        else if q = ''SELECT id FROM glue_table2'' then Inr ''q2''
        else Inl (Error ''InvalidRequestException'')),
      getQueryExecution = (\<lambda>qid i.
        if qid = ''q1'' \<and> i < 2 then Inr \<lparr>State = ''RUNNING'', StateChangeReason = None\<rparr>
        else Inr \<lparr>State = ''SUCCEEDED'', StateChangeReason = None\<rparr>),
      getQueryResults = (\<lambda>qid tok.
        if qid = ''q1'' \<and> tok = None then Inr page1
        else if qid = ''q1'' \<and> tok = Some ''t1'' then Inr page2
        else if qid = ''q2'' \<and> tok = None then Inr headerOnly
        else Inl (Error ''InvalidRequestException'')),
      poolConnect = (\<lambda>h. Inr ()),
      clientQuery = (\<lambda>h q vs.
        if vs = [] then Inl (Error ''syntax error at end of input'')
        else Inr (length (filter (\<lambda>c. c = CHR ''('') q) - 1)),
      responseTime = (\<lambda>n. 0),
      poolError = (\<lambda>h. None)\<rparr>"

text \<open>The same, with a database that rejects every statement.\<close>

definition rejectingWorld :: world where
  "rejectingWorld =
     exampleWorld\<lparr>clientQuery := (\<lambda>h q vs. Inl (Error ''duplicate key value''))\<rparr>"

text \<open>
  The same, with the execution of the first table polled \<open>RUNNING\<close>, \<open>RUNNING\<close>,
  then \<open>FAILED\<close> with the reason \<open>syntax error\<close>.
\<close>

definition failedWorld :: world where
  "failedWorld =
     exampleWorld\<lparr>getQueryExecution := (\<lambda>qid i.
        if qid = ''q1'' \<and> i < 2 then Inr \<lparr>State = ''RUNNING'', StateChangeReason = None\<rparr>
        else if qid = ''q1'' then Inr \<lparr>State = ''FAILED'', StateChangeReason = Some ''syntax error''\<rparr>
        else Inr \<lparr>State = ''SUCCEEDED'', StateChangeReason = None\<rparr>)\<rparr>"

text \<open>The same, with Athena rejecting the query of the first table at submission.\<close>

definition deniedWorld :: world where
  "deniedWorld =
     exampleWorld\<lparr>startQueryExecution := (\<lambda>q.
        if q = ''SELECT id, name FROM glue_table1'' then Inl (Error ''AccessDeniedException'')
        else startQueryExecution exampleWorld q)\<rparr>"

text \<open>The same, with a pool that hands out no client: every \<open>connect\<close> times out.\<close>

definition refusingWorld :: world where
  "refusingWorld =
     exampleWorld\<lparr>poolConnect := (\<lambda>h. Inl (Error ''timeout exceeded when trying to connect''))\<rparr>"

text \<open>
  The same, with a pool whose idle client loses its connection: the pool emits
  \<open>error\<close> once a client has been released.
\<close>

definition brokenPoolWorld :: world where
  "brokenPoolWorld =
     exampleWorld\<lparr>poolError := (\<lambda>h.
        if ClientRelease \<in> set h then Some (Error ''Connection terminated unexpectedly'') else None)\<rparr>"

text \<open>
  The same, with a catalog that knows neither table; the answer for the second
  table arrives before the answer for the first.
\<close>

definition unknownTablesWorld :: world where
  "unknownTablesWorld =
     exampleWorld\<lparr>getTableMetadata := (\<lambda>n. Inl (Error (''EntityNotFoundException: '' @ n))),
                  responseTime := (\<lambda>n. if n = ''glue_table1'' then 2 else 1)\<rparr>"

section \<open>Properties\<close>

subsection \<open>The fuel\<close>

lemma fetchResults_more_fuel:
  assumes "fetchResults n w qid t cols tok s = Some r"
  shows "fetchResults (n + m) w qid t cols tok s = Some r"
  using assms
proof (induction n arbitrary: tok s)
  case 0
  then show ?case by simp
next
  case (Suc n)
  show ?case
  proof (cases "getQueryResults w qid tok")
    case (Inl e)
    with Suc.prems show ?thesis by simp
  next
    case (Inr p)
    let ?s0 = "s @ [GetQueryResultsSent qid tok (Inr p)]"
    obtain o1 s1 where b: "insertIntoPostgresAsBatch w t cols (pageRows tok p) ?s0 = (o1, s1)"
      by (cases "insertIntoPostgresAsBatch w t cols (pageRows tok p) ?s0")
    show ?thesis
    proof (cases "o1 = Returned \<and> truthy (NextToken p)")
      case False
      with Suc.prems Inr b show ?thesis
        by (cases o1) (auto split: if_splits)
    next
      case True
      with Suc.prems Inr b have "fetchResults n w qid t cols (NextToken p) s1 = Some r"
        by simp
      from Suc.IH [OF this] show ?thesis
        using True Inr b by simp
    qed
  qed
qed

lemma pollExecution_more_fuel:
  assumes "pollExecution pages n w qid t cols i s = Some r"
  shows "pollExecution (pages + a) (n + m) w qid t cols i s = Some r"
  using assms
proof (induction n arbitrary: i s)
  case 0
  then show ?case by simp
next
  case (Suc n)
  show ?case
  proof (cases "getQueryExecution w qid i")
    case (Inl e)
    with Suc.prems show ?thesis by simp
  next
    case (Inr st)
    let ?ev = "GetQueryExecutionSent qid (Inr st)"
    consider (failed) "State st = ''FAILED''"
      | (succeeded) "State st \<noteq> ''FAILED''" "State st = ''SUCCEEDED''"
      | (pending) "State st \<noteq> ''FAILED''" "State st \<noteq> ''SUCCEEDED''"
      by blast
    then show ?thesis
    proof cases
      case failed
      with Suc.prems Inr show ?thesis by (simp add: Let_def)
    next
      case succeeded
      with Suc.prems Inr
      have "fetchResults pages w qid t cols None (s @ [?ev, ConsoleLog QuerySucceeded]) = Some r"
        by (simp add: Let_def)
      from fetchResults_more_fuel [OF this, of a] show ?thesis
        using succeeded Inr by (simp add: Let_def)
    next
      case pending
      with Suc.prems Inr
      have "pollExecution pages n w qid t cols (Suc i) (s @ [?ev, SetTimeout 5000]) = Some r"
        by (simp add: Let_def)
      from Suc.IH [OF this] show ?thesis
        using pending Inr by (simp add: Let_def)
    qed
  qed
qed

lemma queryAthena_more_fuel:
  assumes "queryAthena fuel w ath pg cols s = Some r"
  shows "queryAthena (fuel + m) w ath pg cols s = Some r"
proof (cases "startQueryExecution w (queryString cols ath)")
  case (Inl e)
  with assms show ?thesis by (simp add: queryAthena_def)
next
  case (Inr qid)
  let ?s0 = "s @ [ConsoleLog (QueryingAthena ath), StartQueryExecutionSent (queryString cols ath) (Inr qid)]"
  from assms Inr obtain r1 where p: "pollExecution fuel fuel w qid pg cols 0 ?s0 = Some r1"
    by (cases "pollExecution fuel fuel w qid pg cols 0 ?s0") (auto simp: queryAthena_def)
  from pollExecution_more_fuel [OF p, of m m]
  have "pollExecution (fuel + m) (fuel + m) w qid pg cols 0 ?s0 = Some r1" .
  with assms Inr p show ?thesis
    by (simp add: queryAthena_def)
qed

lemma forTables_more_fuel:
  assumes "forTables fuel w ts s = Some r"
  shows "forTables (fuel + m) w ts s = Some r"
  using assms
proof (induction ts arbitrary: s)
  case Nil
  then show ?case by simp
next
  case (Cons t ts)
  from Cons.prems obtain o1 s1 where
    q: "queryAthena fuel w (athName t) (pgName t) (columns t) s = Some (o1, s1)"
    by (cases "queryAthena fuel w (athName t) (pgName t) (columns t) s") auto
  note q' = queryAthena_more_fuel [OF q, of m]
  show ?case
  proof (cases o1)
    case Returned
    with Cons.prems q have "forTables fuel w ts s1 = Some r" by simp
    from Cons.IH [OF this] show ?thesis
      using q' Returned by simp
  next
    case (Thrown x)
    with Cons.prems q have "r = (Thrown x, s1)" by simp
    with q' Thrown show ?thesis by simp
  qed
qed

lemma insertTablesInOrder_more_fuel:
  assumes "insertTablesInOrder fuel w s = Some r"
  shows "insertTablesInOrder (fuel + m) w s = Some r"
proof (cases "promiseAll (lookups w)")
  case (Inl e)
  with assms show ?thesis by (simp add: insertTablesInOrder_def Let_def)
next
  case (Inr ts)
  with assms have "forTables fuel w ts (s @ metadataEvents w) = Some r"
    by (simp add: insertTablesInOrder_def Let_def)
  from forTables_more_fuel [OF this, of m] Inr show ?thesis
    by (simp add: insertTablesInOrder_def Let_def)
qed

subsection \<open>The history of a run that the fuel cuts\<close>

lemma fetchResults_ended:
  "fetchResults n w qid t cols tok s = ended (fetchResultsH n w qid t cols tok s)"
proof (induction n arbitrary: tok s)
  case 0
  show ?case by simp
next
  case (Suc n)
  show ?case
  proof (cases "getQueryResults w qid tok")
    case (Inl e)
    then show ?thesis by simp
  next
    case (Inr p)
    let ?s0 = "s @ [GetQueryResultsSent qid tok (Inr p)]"
    obtain o1 s1 where b: "insertIntoPostgresAsBatch w t cols (pageRows tok p) ?s0 = (o1, s1)"
      by (cases "insertIntoPostgresAsBatch w t cols (pageRows tok p) ?s0")
    show ?thesis
      using Suc.IH [of "NextToken p" s1] by (cases o1) (simp_all add: Inr b)
  qed
qed

lemma pollExecution_ended:
  "pollExecution pages n w qid t cols i s = ended (pollExecutionH pages n w qid t cols i s)"
proof (induction n arbitrary: i s)
  case 0
  show ?case by simp
next
  case (Suc n)
  show ?case
  proof (cases "getQueryExecution w qid i")
    case (Inl e)
    then show ?thesis by simp
  next
    case (Inr st)
    show ?thesis
      using Suc.IH [of "Suc i" "s @ [GetQueryExecutionSent qid (Inr st), SetTimeout 5000]"]
      by (simp add: Inr Let_def fetchResults_ended)
  qed
qed

lemma queryAthena_ended:
  "queryAthena fuel w ath pg cols s = ended (queryAthenaH fuel w ath pg cols s)"
proof (cases "startQueryExecution w (queryString cols ath)")
  case (Inl e)
  then show ?thesis by (simp add: queryAthena_def queryAthenaH_def)
next
  case (Inr qid)
  let ?s0 = "s @ [ConsoleLog (QueryingAthena ath), StartQueryExecutionSent (queryString cols ath) (Inr qid)]"
  obtain e1 s1 where p: "pollExecutionH fuel fuel w qid pg cols 0 ?s0 = (e1, s1)"
    by (cases "pollExecutionH fuel fuel w qid pg cols 0 ?s0")
  show ?thesis
  proof (cases e1)
    case None
    with p Inr show ?thesis
      by (simp add: queryAthena_def queryAthenaH_def pollExecution_ended)
  next
    case (Some out)
    with p Inr show ?thesis
      by (cases out) (simp_all add: queryAthena_def queryAthenaH_def pollExecution_ended)
  qed
qed

lemma forTables_ended:
  "forTables fuel w ts s = ended (forTablesH fuel w ts s)"
proof (induction ts arbitrary: s)
  case Nil
  show ?case by simp
next
  case (Cons t ts)
  obtain e1 s1 where q: "queryAthenaH fuel w (athName t) (pgName t) (columns t) s = (e1, s1)"
    by (cases "queryAthenaH fuel w (athName t) (pgName t) (columns t) s")
  show ?case
  proof (cases e1)
    case None
    with q show ?thesis by (simp add: queryAthena_ended)
  next
    case (Some out)
    with q Cons.IH [of s1] show ?thesis
      by (cases out) (simp_all add: queryAthena_ended)
  qed
qed

text \<open>The two families of functions agree on every run that ends.\<close>

lemma insertTablesInOrder_ended:
  "insertTablesInOrder fuel w s = ended (insertTablesInOrderH fuel w s)"
  by (simp add: insertTablesInOrder_def insertTablesInOrderH_def Let_def forTables_ended
      split: sum.splits)

lemma insertIntoPostgresAsBatch_extends:
  "prefix s (snd (insertIntoPostgresAsBatch w t cols rows s))"
  by (simp add: insertIntoPostgresAsBatch_def Let_def split: sum.splits)

lemma fetchResultsH_extends: "prefix s (snd (fetchResultsH n w qid t cols tok s))"
proof (induction n arbitrary: tok s)
  case 0
  show ?case by simp
next
  case (Suc n)
  show ?case
  proof (cases "getQueryResults w qid tok")
    case (Inl e)
    then show ?thesis by simp
  next
    case (Inr p)
    let ?s0 = "s @ [GetQueryResultsSent qid tok (Inr p)]"
    obtain o1 s1 where b: "insertIntoPostgresAsBatch w t cols (pageRows tok p) ?s0 = (o1, s1)"
      by (cases "insertIntoPostgresAsBatch w t cols (pageRows tok p) ?s0")
    have "prefix ?s0 s1"
      using insertIntoPostgresAsBatch_extends [of ?s0 w t cols "pageRows tok p"] by (simp add: b)
    then have 1: "prefix s s1"
      by (meson append_prefixD)
    have 2: "prefix s1 (snd (fetchResultsH n w qid t cols (NextToken p) s1))"
      by (rule Suc.IH)
    from 1 2 have "prefix s (snd (fetchResultsH n w qid t cols (NextToken p) s1))"
      by (rule prefix_order.trans)
    with 1 show ?thesis
      by (cases o1) (simp_all add: Inr b)
  qed
qed

lemma pollExecutionH_extends: "prefix s (snd (pollExecutionH pages n w qid t cols i s))"
proof (induction n arbitrary: i s)
  case 0
  show ?case by simp
next
  case (Suc n)
  show ?case
  proof (cases "getQueryExecution w qid i")
    case (Inl e)
    then show ?thesis by simp
  next
    case (Inr st)
    let ?ev = "GetQueryExecutionSent qid (Inr st)"
    have 1: "prefix s (snd (fetchResultsH pages w qid t cols None (s @ [?ev, ConsoleLog QuerySucceeded])))"
      using fetchResultsH_extends [of "s @ [?ev, ConsoleLog QuerySucceeded]" pages w qid t cols None]
      by (meson append_prefixD)
    have 2: "prefix s (snd (pollExecutionH pages n w qid t cols (Suc i) (s @ [?ev, SetTimeout 5000])))"
      using Suc.IH [where i = "Suc i" and s = "s @ [?ev, SetTimeout 5000]"] by (meson append_prefixD)
    from 1 2 show ?thesis
      by (simp add: Inr Let_def)
  qed
qed

lemma queryAthenaH_extends: "prefix s (snd (queryAthenaH fuel w ath pg cols s))"
proof (cases "startQueryExecution w (queryString cols ath)")
  case (Inl e)
  then show ?thesis by (simp add: queryAthenaH_def)
next
  case (Inr qid)
  let ?s0 = "s @ [ConsoleLog (QueryingAthena ath), StartQueryExecutionSent (queryString cols ath) (Inr qid)]"
  obtain e1 s1 where p: "pollExecutionH fuel fuel w qid pg cols 0 ?s0 = (e1, s1)"
    by (cases "pollExecutionH fuel fuel w qid pg cols 0 ?s0")
  have "prefix ?s0 s1"
    using pollExecutionH_extends [of ?s0 fuel fuel w qid pg cols 0] by (simp add: p)
  then have 1: "prefix s s1" by (meson append_prefixD)
  then have 2: "prefix s (s1 @ [ConsoleLog (FinishedQuerying ath)])"
    by (rule prefix_prefix)
  show ?thesis
  proof (cases e1)
    case None
    with p Inr 1 show ?thesis by (simp add: queryAthenaH_def)
  next
    case (Some out)
    with p Inr 1 2 show ?thesis by (cases out) (simp_all add: queryAthenaH_def)
  qed
qed

lemma forTablesH_extends: "prefix s (snd (forTablesH fuel w ts s))"
proof (induction ts arbitrary: s)
  case Nil
  show ?case by simp
next
  case (Cons t ts)
  obtain e1 s1 where q: "queryAthenaH fuel w (athName t) (pgName t) (columns t) s = (e1, s1)"
    by (cases "queryAthenaH fuel w (athName t) (pgName t) (columns t) s")
  have 1: "prefix s s1"
    using queryAthenaH_extends [of s fuel w "athName t" "pgName t" "columns t"] by (simp add: q)
  from 1 Cons.IH [where s = s1] have 2: "prefix s (snd (forTablesH fuel w ts s1))"
    by (rule prefix_order.trans)
  show ?case
  proof (cases e1)
    case None
    with q 1 show ?thesis by simp
  next
    case (Some out)
    with q 1 2 show ?thesis by (cases out) simp_all
  qed
qed

lemma continues_refl_ended [simp]: "continues (Some out, s) r' \<longleftrightarrow> r' = (Some out, s)"
  by (simp add: continues_def)

lemma continues_cut [simp]: "continues (None, s) r' \<longleftrightarrow> prefix s (snd r')"
  by (simp add: continues_def)

lemma fetchResultsH_continues:
  "continues (fetchResultsH n w qid t cols tok s) (fetchResultsH (n + m) w qid t cols tok s)"
proof (induction n arbitrary: tok s)
  case 0
  show ?case by (simp add: fetchResultsH_extends)
next
  case (Suc n)
  show ?case
  proof (cases "getQueryResults w qid tok")
    case (Inl e)
    then show ?thesis by simp
  next
    case (Inr p)
    let ?s0 = "s @ [GetQueryResultsSent qid tok (Inr p)]"
    obtain o1 s1 where b: "insertIntoPostgresAsBatch w t cols (pageRows tok p) ?s0 = (o1, s1)"
      by (cases "insertIntoPostgresAsBatch w t cols (pageRows tok p) ?s0")
    show ?thesis
      using Suc.IH [where tok = "NextToken p" and s = s1] by (cases o1) (simp_all add: Inr b)
  qed
qed

lemma pollExecutionH_continues:
  "continues (pollExecutionH pages n w qid t cols i s)
     (pollExecutionH (pages + a) (n + m) w qid t cols i s)"
proof (induction n arbitrary: i s)
  case 0
  show ?case by (simp add: pollExecutionH_extends)
next
  case (Suc n)
  show ?case
  proof (cases "getQueryExecution w qid i")
    case (Inl e)
    then show ?thesis by simp
  next
    case (Inr st)
    show ?thesis
      using Suc.IH [where i = "Suc i" and s = "s @ [GetQueryExecutionSent qid (Inr st), SetTimeout 5000]"]
        fetchResultsH_continues [of pages w qid t cols None
          "s @ [GetQueryExecutionSent qid (Inr st), ConsoleLog QuerySucceeded]" a]
      by (simp add: Inr Let_def)
  qed
qed

lemma queryAthenaH_continues:
  "continues (queryAthenaH fuel w ath pg cols s) (queryAthenaH (fuel + m) w ath pg cols s)"
proof (cases "startQueryExecution w (queryString cols ath)")
  case (Inl e)
  then show ?thesis by (simp add: queryAthenaH_def)
next
  case (Inr qid)
  let ?s0 = "s @ [ConsoleLog (QueryingAthena ath), StartQueryExecutionSent (queryString cols ath) (Inr qid)]"
  obtain e1 s1 where p: "pollExecutionH fuel fuel w qid pg cols 0 ?s0 = (e1, s1)"
    by (cases "pollExecutionH fuel fuel w qid pg cols 0 ?s0")
  obtain e2 s2 where p2: "pollExecutionH (fuel + m) (fuel + m) w qid pg cols 0 ?s0 = (e2, s2)"
    by (cases "pollExecutionH (fuel + m) (fuel + m) w qid pg cols 0 ?s0")
  have c: "continues (e1, s1) (e2, s2)"
    using pollExecutionH_continues [of fuel fuel w qid pg cols 0 ?s0 m m] by (simp add: p p2)
  show ?thesis
  proof (cases e1)
    case None
    with c have "prefix s1 s2" by simp
    then have "prefix s1 (s2 @ [ConsoleLog (FinishedQuerying ath)])"
      by (rule prefix_prefix)
    with None \<open>prefix s1 s2\<close> p p2 Inr show ?thesis
      by (cases e2; cases "the e2") (simp_all add: queryAthenaH_def)
  next
    case (Some out)
    with c have "e2 = Some out" "s2 = s1" by simp_all
    with Some p p2 Inr show ?thesis
      by (cases out) (simp_all add: queryAthenaH_def)
  qed
qed

lemma forTablesH_continues:
  "continues (forTablesH fuel w ts s) (forTablesH (fuel + m) w ts s)"
proof (induction ts arbitrary: s)
  case Nil
  show ?case by simp
next
  case (Cons t ts)
  obtain e1 s1 where q: "queryAthenaH fuel w (athName t) (pgName t) (columns t) s = (e1, s1)"
    by (cases "queryAthenaH fuel w (athName t) (pgName t) (columns t) s")
  obtain e2 s2 where q2: "queryAthenaH (fuel + m) w (athName t) (pgName t) (columns t) s = (e2, s2)"
    by (cases "queryAthenaH (fuel + m) w (athName t) (pgName t) (columns t) s")
  have c: "continues (e1, s1) (e2, s2)"
    using queryAthenaH_continues [of fuel w "athName t" "pgName t" "columns t" s m]
    by (simp add: q q2)
  show ?case
  proof (cases e1)
    case None
    with c have 1: "prefix s1 s2" by simp
    from 1 forTablesH_extends [of s2 "fuel + m" w ts]
    have 2: "prefix s1 (snd (forTablesH (fuel + m) w ts s2))"
      by (rule prefix_order.trans)
    from None 1 2 q q2 show ?thesis
      by (cases e2; cases "the e2") simp_all
  next
    case (Some out)
    with c have "e2 = Some out" "s2 = s1" by simp_all
    with Some q q2 Cons.IH [where s = s1] show ?thesis
      by (cases out) simp_all
  qed
qed

lemma insertTablesInOrderH_continues:
  "continues (insertTablesInOrderH fuel w s) (insertTablesInOrderH (fuel + m) w s)"
  by (simp add: insertTablesInOrderH_def Let_def forTablesH_continues split: sum.splits)

lemma interrupted_append:
  "interrupted w h (a @ b) =
     (case interrupted w h a of Some x \<Rightarrow> Some x | None \<Rightarrow> interrupted w (h @ a) b)"
  by (induction a arbitrary: h) (simp_all split: option.splits)

text \<open>
  A process that ends with some fuel ends the same way with more: the fuel bounds
  the loops of the model and is no part of what the script does.
\<close>

lemma main_more_fuel:
  assumes "main fuel w = Some r"
  shows "main (fuel + m) w = Some r"
proof -
  obtain e1 s1 where a: "insertTablesInOrderH fuel w [] = (e1, s1)"
    by (cases "insertTablesInOrderH fuel w []")
  obtain e2 s2 where b: "insertTablesInOrderH (fuel + m) w [] = (e2, s2)"
    by (cases "insertTablesInOrderH (fuel + m) w []")
  have c: "continues (e1, s1) (e2, s2)"
    using insertTablesInOrderH_continues [of fuel w "[]" m] by (simp add: a b)
  show ?thesis
  proof (cases e1)
    case (Some out)
    with c have "e2 = e1" "s2 = s1" by simp_all
    with assms a b show ?thesis by (simp add: main_def)
  next
    case None
    with assms a obtain h1 e where i: "interrupted w [] s1 = Some (h1, e)"
      and r: "r = (255, poolErrorHandler e h1)"
      by (auto simp: main_def split: option.splits prod.splits)
    from None c obtain x where s2: "s2 = s1 @ x"
      by (auto simp: prefix_def)
    have "interrupted w [] (s1 @ x @ y) = Some (h1, e)" for y
      by (simp add: interrupted_append i)
    from this [of "[]"] this [of "[ConsoleLog ScriptCompleted]"] b r show ?thesis
      by (simp add: main_def s2)
  qed
qed

subsection \<open>Placeholder numbering of a batch\<close>

lemma enumerate_map_nth:
  "map (\<lambda>(i, x). f i x) (enumerate 0 xs) = map (\<lambda>i. f i (xs ! i)) [0..<length xs]"
  by (rule nth_equalityI) (simp_all add: nth_enumerate_eq)

lemma rowPlaceholderIndices_Some:
  "rowPlaceholderIndices (Some c) i row = map (\<lambda>j. Some (i * c + j + 1)) [0..<length row]"
  by (simp add: rowPlaceholderIndices_def enumerate_map_nth placeholderIndex_def)

lemma columnsCountOf_rect:
  "rows \<noteq> [] \<Longrightarrow> \<forall>row\<in>set rows. length row = c \<Longrightarrow> columnsCountOf rows = Some c"
  by (cases rows) (simp_all add: columnsCountOf_def)

lemma batchPlaceholderIndices_rect:
  assumes "\<forall>row\<in>set rows. length row = c"
  shows "batchPlaceholderIndices rows =
           map (\<lambda>i. map (\<lambda>j. Some (i * c + j + 1)) [0..<c]) [0..<length rows]"
proof (cases "rows = []")
  case True
  then show ?thesis by (simp add: batchPlaceholderIndices_def)
next
  case False
  then have cc: "columnsCountOf rows = Some c"
    using assms by (rule columnsCountOf_rect)
  show ?thesis
    using assms
    by (simp add: batchPlaceholderIndices_def cc enumerate_map_nth rowPlaceholderIndices_Some)
qed

lemma upt_block: "[r * c..<r * c + c] = map (\<lambda>j. r * c + j) [0..<c]"
  by (rule nth_equalityI) simp_all

lemma concat_grid:
  "concat (map (\<lambda>i. map (\<lambda>j. f (i * c + j)) [0..<c]) [0..<r]) = map f [0..<r * c]"
proof (induction r)
  case 0
  then show ?case by simp
next
  case (Suc r)
  have "[0..<Suc r * c] = [0..<r * c] @ [r * c..<r * c + c]"
    using upt_add_eq_append [of 0 "r * c" c] by (simp add: add.commute)
  then have "map f [0..<Suc r * c] = map f [0..<r * c] @ map (\<lambda>j. f (r * c + j)) [0..<c]"
    by (simp only: upt_block map_append map_map comp_def)
  then show ?case
    using Suc.IH by simp
qed

lemma concat_rect_nth:
  assumes "\<forall>row\<in>set rows. length row = c" "i < length rows" "j < c"
  shows "concat rows ! (i * c + j) = rows ! i ! j"
  using assms
proof (induction rows arbitrary: i)
  case Nil
  then show ?case by simp
next
  case (Cons r rows)
  show ?case
  proof (cases i)
    case 0
    with Cons.prems show ?thesis by (simp add: nth_append)
  next
    case (Suc k)
    with Cons.prems have "concat rows ! (k * c + j) = rows ! k ! j"
      using Cons.IH by simp
    moreover have "length r = c" using Cons.prems by simp
    moreover have "Suc k * c + j = c + (k * c + j)" by simp
    ultimately show ?thesis
      using Suc nth_append_length_plus [of r "concat rows" "k * c + j"]
      by (simp add: add.assoc)
  qed
qed

lemma length_concat_rect:
  "\<forall>row\<in>set rows. length row = c \<Longrightarrow> length (concat rows) = length rows * c"
  by (induction rows) simp_all

lemma of_char_digitChar: "d < 10 \<Longrightarrow> of_char (digitChar d) = 48 + d"
  by (simp add: digitChar_def)

lemma decimalValue_decimal: "decimalValue (decimal n) = n"
proof (induction n rule: decimal.induct)
  case (1 n)
  show ?case
  proof (cases "n < 10")
    case True
    then show ?thesis
      by (subst decimal.simps) (simp add: decimalValue_def of_char_digitChar)
  next
    case False
    then have "decimalValue (decimal (n div 10)) = n div 10"
      using "1.IH" by simp
    then show ?thesis
      using False
      by (subst decimal.simps) (simp add: decimalValue_def of_char_digitChar)
  qed
qed

lemma decimal_inj: "decimal m = decimal n \<Longrightarrow> m = n"
  by (metis decimalValue_decimal)

lemma placeholder_Some_inj: "inj (\<lambda>n. placeholder (Some n))"
  by (rule injI) (simp add: placeholder_def decimal_inj)

lemma valuePlaceholders_rect:
  assumes "\<forall>row\<in>set rows. length row = c"
  shows "valuePlaceholders rows =
           join '', '' (map (\<lambda>i. ''('' @ join '', '' (map (\<lambda>j. CHR ''$'' # decimal (i * c + j + 1)) [0..<c]) @ '')'')
             [0..<length rows])"
proof (cases "rows = []")
  case True
  then show ?thesis by (simp add: valuePlaceholders_def)
next
  case False
  then have cc: "columnsCountOf rows = Some c"
    using assms by (rule columnsCountOf_rect)
  have row: "rowPlaceholders (Some c) i (rows ! i) =
               join '', '' (map (\<lambda>j. CHR ''$'' # decimal (i * c + j + 1)) [0..<c])"
    if "i < length rows" for i
    using that assms
    by (simp add: rowPlaceholders_def rowPlaceholderIndices_Some placeholder_def comp_def)
  have "map (\<lambda>i. ''('' @ rowPlaceholders (Some c) i (rows ! i) @ '')'') [0..<length rows] =
        map (\<lambda>i. ''('' @ join '', '' (map (\<lambda>j. CHR ''$'' # decimal (i * c + j + 1)) [0..<c]) @ '')'')
          [0..<length rows]"
    by (rule map_cong) (simp_all add: row)
  then show ?thesis
    by (simp only: valuePlaceholders_def cc enumerate_map_nth)
qed

lemma upt_shift: "[1..<n + 1] = map Suc [0..<n]"
proof -
  have "[1..<n + 1] = [Suc 0..<Suc n]" by simp
  then show ?thesis by (simp only: map_Suc_upt)
qed

lemma concat_batchPlaceholderIndices:
  assumes "\<forall>row\<in>set rows. length row = c"
  shows "concat (batchPlaceholderIndices rows) = map Some [1..<length rows * c + 1]"
proof -
  have "concat (batchPlaceholderIndices rows) =
          concat (map (\<lambda>i. map (\<lambda>j. (Some \<circ> Suc) (i * c + j)) [0..<c]) [0..<length rows])"
    by (simp add: batchPlaceholderIndices_rect [OF assms])
  also have "\<dots> = map (Some \<circ> Suc) [0..<length rows * c]"
    by (rule concat_grid)
  finally show ?thesis
    by (simp only: upt_shift map_map)
qed

text \<open>
  C2: in a batch of \<open>R\<close> rows of \<open>c\<close> columns each, the placeholder of row \<open>i\<close>,
  column \<open>j\<close> (from 0) carries the number \<open>i * c + j + 1\<close>; read row by row the
  numbers are exactly \<open>1, ..., R * c\<close>, so each is used once and their texts differ;
  there are as many placeholders as parameter values, and the value at position
  \<open>i * c + j\<close> of the parameter array is the \<open>j\<close>-th value of row \<open>i\<close>. The last
  conjunct is the text of the \<open>VALUES\<close> list that the statement gets.
\<close>

theorem placeholder_numbering:
  assumes "\<forall>row\<in>set rows. length row = c"
  shows "concat (batchPlaceholderIndices rows) = map Some [1..<length rows * c + 1] \<and>
         distinct (map placeholder (concat (batchPlaceholderIndices rows))) \<and>
         length (concat (batchPlaceholderIndices rows)) = length (batchValues rows) \<and>
         (\<forall>i<length rows. \<forall>j<c.
            batchPlaceholderIndices rows ! i ! j = Some (i * c + j + 1) \<and>
            batchValues rows ! (i * c + j) = rows ! i ! j) \<and>
         valuePlaceholders rows =
           join '', '' (map (\<lambda>i. ''('' @ join '', ''
               (map (\<lambda>j. CHR ''$'' # decimal (i * c + j + 1)) [0..<c]) @ '')'')
             [0..<length rows])"
proof -
  have c1: "concat (batchPlaceholderIndices rows) = map Some [1..<length rows * c + 1]"
    using assms by (rule concat_batchPlaceholderIndices)
  have "distinct (map (\<lambda>n. placeholder (Some n)) [1..<length rows * c + 1])"
    by (simp only: distinct_map distinct_upt) (simp add: inj_on_def placeholder_def decimal_inj)
  then have c2: "distinct (map placeholder (concat (batchPlaceholderIndices rows)))"
    by (simp only: c1 map_map comp_def)
  have c3: "length (concat (batchPlaceholderIndices rows)) = length (batchValues rows)"
    by (simp only: c1 batchValues_def length_concat_rect [OF assms] length_map length_upt)
  have c4: "\<forall>i<length rows. \<forall>j<c.
            batchPlaceholderIndices rows ! i ! j = Some (i * c + j + 1) \<and>
            batchValues rows ! (i * c + j) = rows ! i ! j"
    using assms
    by (simp add: batchPlaceholderIndices_rect [OF assms] batchValues_def concat_rect_nth)
  from c1 c2 c3 c4 valuePlaceholders_rect [OF assms] show ?thesis
    by (intro conjI)
qed

theorem placeholder_numbering_witness:
  "concat (batchPlaceholderIndices [[Some ''1'', Some ''alice''], [Some ''2'', Some ''bob'']])
     = [Some 1, Some 2, Some 3, Some 4] \<and>
   batchValues [[Some ''1'', Some ''alice''], [Some ''2'', Some ''bob'']] ! 3 = Some ''bob'' \<and>
   valuePlaceholders [[Some ''1'', Some ''alice''], [Some ''2'', Some ''bob'']]
     = ''($1, $2), ($3, $4)''"
proof -
  let ?rows = "[[Some ''1'', Some ''alice''], [Some ''2'', Some ''bob'']]"
  have h: "\<forall>row\<in>set ?rows. length row = 2" by simp
  have n: "map Some [1..<length ?rows * 2 + 1] = [Some 1, Some 2, Some 3, Some (4::nat)]"
    by code_simp
  have a: "concat (batchPlaceholderIndices ?rows) = [Some 1, Some 2, Some 3, Some 4]"
    using placeholder_numbering [OF h] by (simp only: n)
  have b: "batchValues ?rows ! 3 = Some ''bob''"
    using placeholder_numbering [OF h] by (simp add: batchValues_def)
  have c: "valuePlaceholders ?rows = ''($1, $2), ($3, $4)''"
    by code_simp
  from a b c show ?thesis by (intro conjI)
qed

subsection \<open>The paging loop strips the header row once\<close>

lemma batchesHanded_append [simp]: "batchesHanded (a @ b) = batchesHanded a @ batchesHanded b"
  by (simp add: batchesHanded_def)

lemma pagesFetched_append [simp]: "pagesFetched (a @ b) = pagesFetched a @ pagesFetched b"
  by (simp add: pagesFetched_def)

lemma batchesHanded_Cons [simp]: "batchesHanded (ev # evs) = handed ev @ batchesHanded evs"
  by (simp add: batchesHanded_def)

lemma pagesFetched_Cons [simp]: "pagesFetched (ev # evs) = fetched ev @ pagesFetched evs"
  by (simp add: pagesFetched_def)

lemma batchesHanded_Nil [simp]: "batchesHanded [] = []"
  by (simp add: batchesHanded_def)

lemma pagesFetched_Nil [simp]: "pagesFetched [] = []"
  by (simp add: pagesFetched_def)

lemma insertIntoPostgresAsBatch_observed:
  assumes "insertIntoPostgresAsBatch w t cols rows s = (out, s')"
  shows "\<exists>new. s' = s @ new \<and> batchesHanded new = [rows] \<and> pagesFetched new = []"
  using assms
  by (auto simp: insertIntoPostgresAsBatch_def Let_def split: sum.splits)

lemma fetchResults_observed:
  assumes "fetchResults fuel w qid t cols tok s = Some (out, s')"
  shows "\<exists>new. s' = s @ new \<and>
           batchesHanded new = map (\<lambda>(tk, r). pageRows tk r) (pagesFetched new) \<and>
           (case pagesFetched new of [] \<Rightarrow> True
            | p # ps \<Rightarrow> fst p = tok \<and> list_all (\<lambda>p. truthy (fst p)) ps)"
  using assms
proof (induction fuel arbitrary: tok s)
  case 0
  then show ?case by simp
next
  case (Suc n)
  show ?case
  proof (cases "getQueryResults w qid tok")
    case (Inl e)
    with Suc.prems show ?thesis by auto
  next
    case (Inr r)
    obtain o1 s1 where b: "insertIntoPostgresAsBatch w t cols (pageRows tok r)
        (s @ [GetQueryResultsSent qid tok (Inr r)]) = (o1, s1)"
      by (cases "insertIntoPostgresAsBatch w t cols (pageRows tok r)
        (s @ [GetQueryResultsSent qid tok (Inr r)])")
    from insertIntoPostgresAsBatch_observed [OF b] obtain new1 where
      n1: "s1 = (s @ [GetQueryResultsSent qid tok (Inr r)]) @ new1"
        "batchesHanded new1 = [pageRows tok r]" "pagesFetched new1 = []"
      by blast
    show ?thesis
    proof (cases "o1 = Returned \<and> truthy (NextToken r)")
      case False
      with Suc.prems Inr b have "s' = s1"
        by (cases o1) (auto split: if_splits)
      with n1 show ?thesis
        by (intro exI [of _ "GetQueryResultsSent qid tok (Inr r) # new1"]) simp
    next
      case True
      with Suc.prems Inr b have "fetchResults n w qid t cols (NextToken r) s1 = Some (out, s')"
        by simp
      from Suc.IH [OF this] obtain new2 where
        n2: "s' = s1 @ new2"
          "batchesHanded new2 = map (\<lambda>(tk, r). pageRows tk r) (pagesFetched new2)"
          "case pagesFetched new2 of [] \<Rightarrow> True
            | p # ps \<Rightarrow> fst p = NextToken r \<and> list_all (\<lambda>p. truthy (fst p)) ps"
        by blast
      have hd2: "list_all (\<lambda>p. truthy (fst p)) (pagesFetched new2)"
        using n2(3) True by (cases "pagesFetched new2") simp_all
      show ?thesis
        using n1 n2(1,2) hd2
        by (intro exI [of _ "GetQueryResultsSent qid tok (Inr r) # new1 @ new2"]) simp
    qed
  qed
qed

lemma fetchResults_total:
  assumes "servedPages w qid tok pages" "length pages \<le> fuel"
  shows "\<exists>out s'. fetchResults fuel w qid t cols tok s = Some (out, s') \<and>
           (out = Returned \<longrightarrow> map snd (pagesFetched (drop (length s) s')) = pages)"
  using assms
proof (induction pages arbitrary: tok fuel s)
  case Nil
  then show ?case by simp
next
  case (Cons p ps)
  from Cons.prems(2) obtain n where fuel: "fuel = Suc n" and len: "length ps \<le> n"
    by (cases fuel) simp_all
  from Cons.prems(1) have g: "getQueryResults w qid tok = Inr p"
    and rest: "if truthy (NextToken p) then servedPages w qid (NextToken p) ps else ps = []"
    by simp_all
  let ?s0 = "s @ [GetQueryResultsSent qid tok (Inr p)]"
  obtain o1 s1 where b: "insertIntoPostgresAsBatch w t cols (pageRows tok p) ?s0 = (o1, s1)"
    by (cases "insertIntoPostgresAsBatch w t cols (pageRows tok p) ?s0")
  from insertIntoPostgresAsBatch_observed [OF b] obtain new1 where
    n1: "s1 = ?s0 @ new1" and f1: "pagesFetched new1 = []"
    by blast
  have d1: "pagesFetched (drop (length s) s1) = [(tok, p)]"
    by (simp add: n1 f1)
  show ?case
  proof (cases "o1 = Returned \<and> truthy (NextToken p)")
    case False
    have x: "fetchResults (Suc n) w qid t cols tok s = Some (o1, s1)"
      using False by (cases o1) (simp_all add: g b)
    have y: "o1 = Returned \<longrightarrow> map snd (pagesFetched (drop (length s) s1)) = p # ps"
      using False rest by (simp add: d1)
    show ?thesis unfolding fuel
      by (rule exI [of _ o1], rule exI [of _ s1], rule conjI, rule x, rule y)
  next
    case True
    with rest have "servedPages w qid (NextToken p) ps" by simp
    from Cons.IH [OF this len, of s1] obtain out s' where
      r: "fetchResults n w qid t cols (NextToken p) s1 = Some (out, s')"
      and r2: "out = Returned \<longrightarrow> map snd (pagesFetched (drop (length s1) s')) = ps"
      by blast
    from fetchResults_observed [OF r] obtain new2 where n2: "s' = s1 @ new2"
      by blast
    have x: "fetchResults (Suc n) w qid t cols tok s = Some (out, s')"
      using True by (simp add: g b r)
    have y: "out = Returned \<longrightarrow> map snd (pagesFetched (drop (length s) s')) = p # ps"
      using r2 by (simp add: n2 n1 f1)
    show ?thesis unfolding fuel
      by (rule exI [of _ out], rule exI [of _ s'], rule conjI, rule x, rule y)
  qed
qed

lemma exampleWorld_sel:
  "DB_SCHEMA exampleWorld = ''public''"
  "glueTableNameList exampleWorld = [''glue_table1'', ''glue_table2'']"
  "poolConnect exampleWorld h = Inr ()"
  "clientQuery exampleWorld h q vs =
     (if vs = [] then Inl (Error ''syntax error at end of input'')
      else Inr (length (filter (\<lambda>c. c = CHR ''('') q) - 1))"
  "getQueryResults exampleWorld ''q1'' None = Inr page1"
  "getQueryResults exampleWorld ''q1'' (Some ''t1'') = Inr page2"
  "getQueryResults exampleWorld ''q2'' None = Inr headerOnly"
  "getQueryExecution exampleWorld ''q1'' 0 = Inr \<lparr>State = ''RUNNING'', StateChangeReason = None\<rparr>"
  "getQueryExecution exampleWorld ''q1'' (Suc 0) = Inr \<lparr>State = ''RUNNING'', StateChangeReason = None\<rparr>"
  "getQueryExecution exampleWorld ''q1'' (Suc (Suc 0)) = Inr \<lparr>State = ''SUCCEEDED'', StateChangeReason = None\<rparr>"
  "getQueryExecution exampleWorld ''q2'' i = Inr \<lparr>State = ''SUCCEEDED'', StateChangeReason = None\<rparr>"
  "startQueryExecution exampleWorld ''SELECT id, name FROM glue_table1'' = Inr ''q1''"
  "startQueryExecution exampleWorld ''SELECT id FROM glue_table2'' = Inr ''q2''"
  "getTableMetadata exampleWorld ''glue_table1'' = Inr [\<lparr>Name = ''id''\<rparr>, \<lparr>Name = ''name''\<rparr>]"
  "getTableMetadata exampleWorld ''glue_table2'' = Inr [\<lparr>Name = ''id''\<rparr>]"
  "responseTime exampleWorld n = 0"
  "poolError exampleWorld h = None"
  by (simp_all add: exampleWorld_def)

lemma page_tokens:
  "NextToken page1 = Some ''t1''" "NextToken page2 = None" "NextToken headerOnly = None"
  by (simp_all add: page1_def page2_def headerOnly_def)

lemma pageRows_eq:
  "pageRows tok r = (if truthy tok then allRows r else drop 1 (allRows r))"
  by (simp add: pageRows_def allRows_def drop_map)

lemma sum_length_drop1:
  "xs \<noteq> [] \<Longrightarrow> length (drop 1 xs) + 1 = length xs"
  by (cases xs) simp_all

text \<open>
  C1: the paging loop of one query execution, entered without a token. Whatever the
  loop did before it ended, every page that came back was passed to
  \<open>insertIntoPostgresAsBatch\<close> exactly once and in order; the first page was
  requested without a token and went without its first row, every later page was
  requested with a token and went unmodified; so, when the first page holds its
  header row, the rows passed are one fewer than the rows of the pages. And when
  the service holds the result as finitely many pages and the fuel covers them, the
  loop ends; if it returns, it has fetched exactly these pages.
\<close>

theorem header_row_stripped_once:
  "(\<forall>out s'. fetchResults fuel w qid t cols None s = Some (out, s') \<longrightarrow>
      (\<exists>new. s' = s @ new \<and>
         (case pagesFetched new of
            [] \<Rightarrow> batchesHanded new = []
          | (tok, first) # later \<Rightarrow>
              tok = None \<and> list_all (\<lambda>p. truthy (fst p)) later \<and>
              batchesHanded new = drop 1 (allRows first) # map (\<lambda>p. allRows (snd p)) later \<and>
              (Rows first \<noteq> [] \<longrightarrow>
                 sum_list (map length (batchesHanded new)) + 1 =
                 sum_list (map (\<lambda>p. length (Rows (snd p))) (pagesFetched new)))))) \<and>
   (\<forall>pages. servedPages w qid None pages \<and> length pages \<le> fuel \<longrightarrow>
      (\<exists>out s'. fetchResults fuel w qid t cols None s = Some (out, s') \<and>
         (out = Returned \<longrightarrow> map snd (pagesFetched (drop (length s) s')) = pages)))"
proof (intro conjI allI impI)
  fix out s'
  assume r: "fetchResults fuel w qid t cols None s = Some (out, s')"
  from fetchResults_observed [OF r] obtain new where
    n: "s' = s @ new"
      "batchesHanded new = map (\<lambda>(tk, r). pageRows tk r) (pagesFetched new)"
      "case pagesFetched new of [] \<Rightarrow> True
       | p # ps \<Rightarrow> fst p = None \<and> list_all (\<lambda>p. truthy (fst p)) ps"
    by blast
  have "case pagesFetched new of
            [] \<Rightarrow> batchesHanded new = []
          | (tok, first) # later \<Rightarrow>
              tok = None \<and> list_all (\<lambda>p. truthy (fst p)) later \<and>
              batchesHanded new = drop 1 (allRows first) # map (\<lambda>p. allRows (snd p)) later \<and>
              (Rows first \<noteq> [] \<longrightarrow>
                 sum_list (map length (batchesHanded new)) + 1 =
                 sum_list (map (\<lambda>p. length (Rows (snd p))) (pagesFetched new)))"
  proof (cases "pagesFetched new")
    case Nil
    with n(2) show ?thesis by simp
  next
    case (Cons p later)
    obtain tok first where p: "p = (tok, first)" by (cases p)
    from n(3) Cons p have tok: "tok = None" and later: "list_all (\<lambda>p. truthy (fst p)) later"
      by simp_all
    have "map (\<lambda>(tk, r). pageRows tk r) later = map (\<lambda>p. allRows (snd p)) later"
      using later by (induction later) (auto simp: pageRows_eq)
    with n(2) Cons p tok
    have b: "batchesHanded new = drop 1 (allRows first) # map (\<lambda>p. allRows (snd p)) later"
      by (simp add: pageRows_eq truthy_def)
    have "sum_list (map length (batchesHanded new)) + 1 =
            sum_list (map (\<lambda>p. length (Rows (snd p))) (pagesFetched new))"
      if "Rows first \<noteq> []"
    proof -
      from that have "length (drop 1 (allRows first)) + 1 = length (Rows first)"
        using sum_length_drop1 [of "allRows first"] by (simp add: allRows_def)
      then show ?thesis
        by (simp add: b Cons p allRows_def comp_def)
    qed
    with tok later b Cons p show ?thesis by simp
  qed
  with n(1) show "\<exists>new. s' = s @ new \<and>
         (case pagesFetched new of
            [] \<Rightarrow> batchesHanded new = []
          | (tok, first) # later \<Rightarrow>
              tok = None \<and> list_all (\<lambda>p. truthy (fst p)) later \<and>
              batchesHanded new = drop 1 (allRows first) # map (\<lambda>p. allRows (snd p)) later \<and>
              (Rows first \<noteq> [] \<longrightarrow>
                 sum_list (map length (batchesHanded new)) + 1 =
                 sum_list (map (\<lambda>p. length (Rows (snd p))) (pagesFetched new))))"
    by blast
next
  fix pages
  assume "servedPages w qid None pages \<and> length pages \<le> fuel"
  then show "\<exists>out s'. fetchResults fuel w qid t cols None s = Some (out, s') \<and>
         (out = Returned \<longrightarrow> map snd (pagesFetched (drop (length s) s')) = pages)"
    using fetchResults_total by blast
qed

theorem header_row_stripped_once_witness:
  "servedPages exampleWorld ''q1'' None [page1, page2] \<and>
   (\<exists>s'. fetchResults 2 exampleWorld ''q1'' ''able1'' [''id'', ''name''] None [] = Some (Returned, s') \<and>
      map snd (pagesFetched s') = [page1, page2] \<and>
      batchesHanded s' =
        [[[Some ''1'', Some ''alice''], [Some ''2'', Some ''bob'']], [[Some ''3'', Some ''carol'']]] \<and>
      sum_list (map length (batchesHanded s')) + 1 = length (Rows page1) + length (Rows page2))"
proof -
  define run where "run = fetchResults 2 exampleWorld ''q1'' ''able1'' [''id'', ''name''] None []"
  note inst = header_row_stripped_once [of 2 exampleWorld "''q1''" "''able1''" "[''id'', ''name'']" "[]",
      folded run_def]
  have sp: "servedPages exampleWorld ''q1'' None [page1, page2]"
    by (simp add: exampleWorld_sel truthy_def page_tokens)
  have "servedPages exampleWorld ''q1'' None [page1, page2] \<and> length [page1, page2] \<le> 2"
    by (rule conjI [OF sp]) simp
  from inst [THEN conjunct2, rule_format, OF this] obtain out s' where r: "run = Some (out, s')"
    and pg: "out = Returned \<longrightarrow> map snd (pagesFetched (drop (length ([]::state)) s')) = [page1, page2]"
    by (elim exE conjE) (rule that)
  have "map_option fst run = Some Returned"
    by (simp add: run_def Let_def numeral_2_eq_2 exampleWorld_sel insertIntoPostgresAsBatch_def
        page1_def page2_def truthy_def)
  with r have out: "out = Returned" by simp
  with pg have pages: "map snd (pagesFetched s') = [page1, page2]" by simp
  from inst [THEN conjunct1, rule_format, OF r] obtain new where new: "s' = [] @ new"
    and c: "case pagesFetched new of
            [] \<Rightarrow> batchesHanded new = []
          | (tok, first) # later \<Rightarrow>
              tok = None \<and> list_all (\<lambda>p. truthy (fst p)) later \<and>
              batchesHanded new = drop 1 (allRows first) # map (\<lambda>p. allRows (snd p)) later \<and>
              (Rows first \<noteq> [] \<longrightarrow>
                 sum_list (map length (batchesHanded new)) + 1 =
                 sum_list (map (\<lambda>p. length (Rows (snd p))) (pagesFetched new)))"
    by (elim exE conjE) (rule that)
  from pages new obtain t1 t2 where pf: "pagesFetched new = [(t1, page1), (t2, page2)]"
    by (auto simp: map_eq_Cons_conv)
  have ne: "Rows page1 \<noteq> []" by (simp add: page1_def)
  note c2 = c [unfolded pf list.case prod.case]
  from c2 have b: "batchesHanded new = [drop 1 (allRows page1), allRows page2]"
    by simp
  from c2 ne have "sum_list (map length (batchesHanded new)) + 1 =
      sum_list (map (\<lambda>p. length (Rows (snd p))) [(t1, page1), (t2, page2)])"
    by blast
  then have n: "sum_list (map length (batchesHanded s')) + 1 = length (Rows page1) + length (Rows page2)"
    using new by simp
  have bh: "batchesHanded s' =
        [[[Some ''1'', Some ''alice''], [Some ''2'', Some ''bob'']], [[Some ''3'', Some ''carol'']]]"
    using new by (simp add: b allRows_def page1_def page2_def rowValues_def cell_def)
  from r out have r': "fetchResults 2 exampleWorld ''q1'' ''able1'' [''id'', ''name''] None [] =
      Some (Returned, s')"
    by (simp add: run_def)
  show ?thesis
    by (rule conjI [OF sp], rule exI [of _ s'], intro conjI, fact r', fact pages, fact bh, fact n)
qed

subsection \<open>One batch: the connection and the statement\<close>

lemma rejectingWorld_sel:
  "DB_SCHEMA rejectingWorld = ''public''"
  "glueTableNameList rejectingWorld = [''glue_table1'', ''glue_table2'']"
  "poolConnect rejectingWorld h = Inr ()"
  "clientQuery rejectingWorld h q vs = Inl (Error ''duplicate key value'')"
  "getQueryResults rejectingWorld = getQueryResults exampleWorld"
  "getQueryExecution rejectingWorld = getQueryExecution exampleWorld"
  "startQueryExecution rejectingWorld = startQueryExecution exampleWorld"
  "getTableMetadata rejectingWorld = getTableMetadata exampleWorld"
  "responseTime rejectingWorld n = 0"
  "poolError rejectingWorld h = None"
  by (simp_all add: rejectingWorld_def exampleWorld_sel)

lemma insertIntoPostgresAsBatch_connected:
  assumes "poolConnect w (s @ [InsertBatchCalled t cols rows, ConsoleLog (NumberOfRows t (length rows))]) = Inr c"
  shows "insertIntoPostgresAsBatch w t cols rows s =
     (Returned,
      s @ [InsertBatchCalled t cols rows, ConsoleLog (NumberOfRows t (length rows)),
           PoolConnectCalled (Inr c),
           ClientQueryCalled (batchQuery (DB_SCHEMA w) t cols rows) (batchValues rows)
             (clientQuery w (s @ [InsertBatchCalled t cols rows,
                ConsoleLog (NumberOfRows t (length rows)), PoolConnectCalled (Inr c)])
                (batchQuery (DB_SCHEMA w) t cols rows) (batchValues rows)),
           ConsoleLog (case clientQuery w (s @ [InsertBatchCalled t cols rows,
                ConsoleLog (NumberOfRows t (length rows)), PoolConnectCalled (Inr c)])
                (batchQuery (DB_SCHEMA w) t cols rows) (batchValues rows) of
              Inr rowCount \<Rightarrow> InsertedRows rowCount t
            | Inl e \<Rightarrow> InsertError (Some t) e),
           ClientRelease])"
  using assms
  by (simp add: insertIntoPostgresAsBatch_def Let_def split: sum.splits)

lemma insertIntoPostgresAsBatch_refused:
  assumes "poolConnect w (s @ [InsertBatchCalled t cols rows, ConsoleLog (NumberOfRows t (length rows))]) = Inl e"
  shows "insertIntoPostgresAsBatch w t cols rows s =
     (Thrown e,
      s @ [InsertBatchCalled t cols rows, ConsoleLog (NumberOfRows t (length rows)),
           PoolConnectCalled (Inl e)])"
  using assms
  by (simp add: insertIntoPostgresAsBatch_def Let_def)

text \<open>
  C5: a call of \<open>insertIntoPostgresAsBatch\<close> adds to the history either a refused
  \<open>connect\<close> and nothing after it (no client was acquired, none is released, the
  exception leaves the call), or an acquired client, the one statement with
  whatever the database answered, a log line, and the release of the client as the
  last event: exactly one release for the one client, whether the statement
  succeeded or threw.
\<close>

theorem connection_released_once:
  "\<exists>new. snd (insertIntoPostgresAsBatch w t cols rows s) = s @ new \<and>
     (case poolConnect w (s @ [InsertBatchCalled t cols rows,
                               ConsoleLog (NumberOfRows t (length rows))]) of
        Inl e \<Rightarrow>
          fst (insertIntoPostgresAsBatch w t cols rows s) = Thrown e \<and>
          count_list new ClientRelease = 0 \<and>
          last new = PoolConnectCalled (Inl e)
      | Inr c \<Rightarrow>
          fst (insertIntoPostgresAsBatch w t cols rows s) = Returned \<and>
          count_list new (PoolConnectCalled (Inr c)) = 1 \<and>
          count_list new ClientRelease = 1 \<and>
          (\<exists>r l. drop 2 new =
             [PoolConnectCalled (Inr c),
              ClientQueryCalled (batchQuery (DB_SCHEMA w) t cols rows) (batchValues rows) r,
              ConsoleLog l, ClientRelease]))"
proof (cases "poolConnect w (s @ [InsertBatchCalled t cols rows,
                               ConsoleLog (NumberOfRows t (length rows))])")
  case (Inl e)
  show ?thesis
    by (rule exI [of _ "[InsertBatchCalled t cols rows, ConsoleLog (NumberOfRows t (length rows)),
           PoolConnectCalled (Inl e)]"])
      (simp add: Inl insertIntoPostgresAsBatch_refused [OF Inl])
next
  case (Inr c)
  show ?thesis
    unfolding insertIntoPostgresAsBatch_connected [OF Inr] Inr
    by (intro exI conjI) (simp_all only: snd_conv fst_conv sum.case, simp_all)
qed

theorem connection_released_once_witness:
  "fst (insertIntoPostgresAsBatch exampleWorld ''able1'' [''id''] [[Some ''1'']] []) = Returned \<and>
   count_list (snd (insertIntoPostgresAsBatch exampleWorld ''able1'' [''id''] [[Some ''1'']] []))
     ClientRelease = 1 \<and>
   fst (insertIntoPostgresAsBatch rejectingWorld ''able1'' [''id''] [[Some ''1'']] []) = Returned \<and>
   count_list (snd (insertIntoPostgresAsBatch rejectingWorld ''able1'' [''id''] [[Some ''1'']] []))
     ClientRelease = 1"
  using connection_released_once [of exampleWorld "''able1''" "[''id'']" "[[Some ''1'']]" "[]"]
    connection_released_once [of rejectingWorld "''able1''" "[''id'']" "[[Some ''1'']]" "[]"]
  by (auto simp: exampleWorld_sel rejectingWorld_sel)

lemma batchQuery_empty:
  "batchQuery schema t cols [] =
     ''INSERT INTO '' @ schema @ ''.'' @ t @ '' ('' @ join '', '' cols @ '') VALUES ''"
  by (simp add: batchQuery_def valuePlaceholders_def)

text \<open>
  C4: with no rows, \<open>insertIntoPostgresAsBatch\<close> builds the statement all the same,
  with nothing after \<open>VALUES\<close> and no parameters, and sends it to the database.
\<close>

theorem empty_batch_is_sent:
  "insertIntoPostgresAsBatch exampleWorld ''able2'' [''id''] [] [] =
     (Returned,
      [InsertBatchCalled ''able2'' [''id''] [], ConsoleLog (NumberOfRows ''able2'' 0),
       PoolConnectCalled (Inr ()),
       ClientQueryCalled ''INSERT INTO public.able2 (id) VALUES '' []
         (Inl (Error ''syntax error at end of input'')),
       ConsoleLog (InsertError (Some ''able2'') (Error ''syntax error at end of input'')),
       ClientRelease])"
  by (simp add: insertIntoPostgresAsBatch_def exampleWorld_sel batchQuery_empty batchValues_def)

text \<open>The row-by-row loader sends nothing for no rows.\<close>

lemma insertIntoPostgres_empty:
  "insertIntoPostgres w t cols [] s =
     (Returned, s @ [InsertCalled t cols [], ConsoleLog (NumberOfRows t 0),
                     ConsoleLog (InsertedRows 0 t)])"
  by (simp add: insertIntoPostgres_def)

text \<open>A table without rows reaches the loader with no rows: its only page is the header.\<close>

lemma empty_table_reaches_loader:
  "map_option (\<lambda>r. insertStatements (snd r))
     (fetchResults 1 exampleWorld ''q2'' ''able2'' [''id''] None []) =
   Some [''INSERT INTO public.able2 (id) VALUES '']"
  by (simp add: exampleWorld_sel page_tokens truthy_def pageRows_def
      headerOnly_def insertIntoPostgresAsBatch_def batchQuery_empty batchValues_def
      insertStatements_def)

subsection \<open>How an exception ends a piece of the script\<close>

lemma insertStatements_simps [simp]:
  "insertStatements (a @ b) = insertStatements a @ insertStatements b"
  "insertStatements (ev # evs) = statement ev @ insertStatements evs"
  "insertStatements [] = []"
  by (simp_all add: insertStatements_def)

lemma escaped_raised: "escaped ev \<longleftrightarrow> raised ev \<noteq> None"
  by (cases ev rule: escaped.cases) simp_all

lemma stopsWith_single: "raised ev = Some e \<Longrightarrow> stopsWith e [ev]"
  by (simp add: stopsWith_def)

lemma stopsWith_Cons: "\<not> escaped ev \<Longrightarrow> stopsWith e (ev # new) = stopsWith e new"
  by (cases "rev new") (auto simp: stopsWith_def escaped_raised)

lemma stopsWith_append: "\<not> list_ex escaped a \<Longrightarrow> stopsWith e (a @ b) = stopsWith e b"
  by (induction a) (simp_all add: stopsWith_Cons)

lemma stopsWith_escaped: "stopsWith e new \<Longrightarrow> list_ex escaped new"
  by (cases "rev new") (auto simp: stopsWith_def escaped_raised list_ex_iff dest: arg_cong [where f = set])

lemma stopsWith_split:
  "stopsWith e new \<longleftrightarrow> (\<exists>before ev. new = before @ [ev] \<and> raised ev = Some e \<and> \<not> list_ex escaped before)"
proof (cases new rule: rev_cases)
  case Nil
  then show ?thesis by (simp add: stopsWith_def)
next
  case (snoc before ev)
  then show ?thesis by (auto simp: stopsWith_def list_ex_iff)
qed

lemma endsAs_Cons: "\<not> escaped ev \<Longrightarrow> endsAs out (ev # new) = endsAs out new"
  by (cases out) (simp_all add: stopsWith_Cons)

lemma endsAs_append: "\<not> list_ex escaped a \<Longrightarrow> endsAs out (a @ b) = endsAs out b"
  by (cases out) (simp_all add: stopsWith_append)

lemma endsAs_returned_snoc: "\<not> escaped ev \<Longrightarrow> endsAs Returned (new @ [ev]) = endsAs Returned new"
  by simp

lemma endsAs_escaped: "endsAs out new \<Longrightarrow> list_ex escaped new \<longleftrightarrow> out \<noteq> Returned"
  by (cases out) (auto dest: stopsWith_escaped)

lemma insertIntoPostgresAsBatch_ends:
  assumes "insertIntoPostgresAsBatch w t cols rows s = (out, s')"
  shows "\<exists>new. s' = s @ new \<and> endsAs out new \<and> \<not> list_ex exited new"
  using assms
  by (auto simp: insertIntoPostgresAsBatch_def Let_def stopsWith_def split: sum.splits)

lemma fetchResults_ends:
  assumes "fetchResults n w qid t cols tok s = Some (out, s')"
  shows "\<exists>new. s' = s @ new \<and> endsAs out new \<and> \<not> list_ex exited new"
  using assms
proof (induction n arbitrary: tok s)
  case 0
  then show ?case by simp
next
  case (Suc n)
  show ?case
  proof (cases "getQueryResults w qid tok")
    case (Inl e)
    with Suc.prems show ?thesis by (auto simp: stopsWith_def)
  next
    case (Inr r)
    let ?s0 = "s @ [GetQueryResultsSent qid tok (Inr r)]"
    obtain o1 s1 where b: "insertIntoPostgresAsBatch w t cols (pageRows tok r) ?s0 = (o1, s1)"
      by (cases "insertIntoPostgresAsBatch w t cols (pageRows tok r) ?s0")
    from insertIntoPostgresAsBatch_ends [OF b] obtain new1 where
      n1: "s1 = ?s0 @ new1" and e1: "endsAs o1 new1" and x1: "\<not> list_ex exited new1"
      by blast
    show ?thesis
    proof (cases "o1 = Returned \<and> truthy (NextToken r)")
      case False
      with Suc.prems Inr b have "s' = s1 \<and> out = o1"
        by (cases o1) (auto split: if_splits)
      with n1 e1 x1 show ?thesis
        by (intro exI [of _ "GetQueryResultsSent qid tok (Inr r) # new1"]) (simp add: endsAs_Cons)
    next
      case True
      with Suc.prems Inr b have "fetchResults n w qid t cols (NextToken r) s1 = Some (out, s')"
        by simp
      from Suc.IH [OF this] obtain new2 where
        n2: "s' = s1 @ new2" and e2: "endsAs out new2" and x2: "\<not> list_ex exited new2"
        by blast
      from e1 True have "\<not> list_ex escaped new1" by simp
      then show ?thesis
        using n1 n2 e2 x1 x2
        by (intro exI [of _ "GetQueryResultsSent qid tok (Inr r) # new1 @ new2"])
          (simp add: endsAs_Cons endsAs_append)
    qed
  qed
qed

lemma pollExecution_ends:
  assumes "pollExecution pages n w qid t cols i s = Some (out, s')"
  shows "\<exists>new. s' = s @ new \<and> endsAs out new \<and> \<not> list_ex exited new"
  using assms
proof (induction n arbitrary: i s)
  case 0
  then show ?case by simp
next
  case (Suc n)
  show ?case
  proof (cases "getQueryExecution w qid i")
    case (Inl e)
    with Suc.prems show ?thesis by (auto simp: stopsWith_def)
  next
    case (Inr r)
    let ?ev = "GetQueryExecutionSent qid (Inr r)"
    consider (failed) "State r = ''FAILED''"
      | (succeeded) "State r \<noteq> ''FAILED''" "State r = ''SUCCEEDED''"
      | (pending) "State r \<noteq> ''FAILED''" "State r \<noteq> ''SUCCEEDED''"
      by blast
    then show ?thesis
    proof cases
      case failed
      with Suc.prems Inr show ?thesis by (auto simp: Let_def)
    next
      case succeeded
      with Suc.prems Inr
      have "fetchResults pages w qid t cols None (s @ [?ev, ConsoleLog QuerySucceeded]) = Some (out, s')"
        by (simp add: Let_def)
      from fetchResults_ends [OF this] obtain new where
        "s' = (s @ [?ev, ConsoleLog QuerySucceeded]) @ new" "endsAs out new" "\<not> list_ex exited new"
        by blast
      then show ?thesis
        by (intro exI [of _ "?ev # ConsoleLog QuerySucceeded # new"]) (simp add: endsAs_Cons)
    next
      case pending
      with Suc.prems Inr
      have "pollExecution pages n w qid t cols (Suc i) (s @ [?ev, SetTimeout 5000]) = Some (out, s')"
        by (simp add: Let_def)
      from Suc.IH [OF this] obtain new where
        "s' = (s @ [?ev, SetTimeout 5000]) @ new" "endsAs out new" "\<not> list_ex exited new"
        by blast
      then show ?thesis
        by (intro exI [of _ "?ev # SetTimeout 5000 # new"]) (simp add: endsAs_Cons)
    qed
  qed
qed

lemma queryAthena_ends:
  assumes "queryAthena fuel w ath pg cols s = Some (out, s')"
  shows "\<exists>new. s' = s @ new \<and> endsAs out new \<and> \<not> list_ex exited new"
proof (cases "startQueryExecution w (queryString cols ath)")
  case (Inl e)
  with assms show ?thesis by (auto simp: queryAthena_def stopsWith_def)
next
  case (Inr qid)
  let ?s0 = "s @ [ConsoleLog (QueryingAthena ath), StartQueryExecutionSent (queryString cols ath) (Inr qid)]"
  from assms Inr obtain o1 s1 where p: "pollExecution fuel fuel w qid pg cols 0 ?s0 = Some (o1, s1)"
    by (cases "pollExecution fuel fuel w qid pg cols 0 ?s0") (auto simp: queryAthena_def)
  from pollExecution_ends [OF p] obtain new where
    n: "s1 = ?s0 @ new" and e: "endsAs o1 new" and x: "\<not> list_ex exited new"
    by blast
  show ?thesis
  proof (cases o1)
    case Returned
    with assms Inr p have "out = Returned" "s' = s1 @ [ConsoleLog (FinishedQuerying ath)]"
      by (simp_all add: queryAthena_def)
    with n e x Returned show ?thesis
      by (intro exI [of _ "ConsoleLog (QueryingAthena ath) #
            StartQueryExecutionSent (queryString cols ath) (Inr qid) # new @ [ConsoleLog (FinishedQuerying ath)]"])
        simp
  next
    case (Thrown y)
    with assms Inr p have "out = Thrown y" "s' = s1"
      by (simp_all add: queryAthena_def)
    with n e x Thrown show ?thesis
      by (intro exI [of _ "ConsoleLog (QueryingAthena ath) #
            StartQueryExecutionSent (queryString cols ath) (Inr qid) # new"])
        (simp add: stopsWith_Cons)
  qed
qed


subsection \<open>The metadata lookups\<close>



lemma earliest_first:
  "\<exists>t'. (t', earliest (t, e) rs) \<in> set ((t, e) # rs) \<and> (\<forall>p\<in>set ((t, e) # rs). t' \<le> fst p)"
proof (induction rs arbitrary: t e)
  case Nil
  show ?case by simp
next
  case (Cons r rs)
  obtain t1 e1 where r: "r = (t1, e1)" by (cases r)
  show ?case
  proof (cases "t1 < t")
    case True
    from Cons.IH [of t1 e1] obtain t' where
      "(t', earliest (t1, e1) rs) \<in> set ((t1, e1) # rs)" "\<forall>p\<in>set ((t1, e1) # rs). t' \<le> fst p"
      by blast
    with True show ?thesis
      by (intro exI [of _ t']) (auto simp: r)
  next
    case False
    from Cons.IH [of t e] obtain t' where
      "(t', earliest (t, e) rs) \<in> set ((t, e) # rs)" "\<forall>p\<in>set ((t, e) # rs). t' \<le> fst p"
      by blast
    with False show ?thesis
      by (intro exI [of _ t']) (auto simp: r)
  qed
qed

lemma rejections_set:
  "(t, e) \<in> set (rejections ps) \<longleftrightarrow> (t, Inl e) \<in> set ps"
  by (induction ps rule: rejections.induct) auto

lemma promiseAll_first:
  assumes "promiseAll ps = Inl e"
  shows "\<exists>t. (t, Inl e) \<in> set ps \<and> (\<forall>t' e'. (t', Inl e') \<in> set ps \<longrightarrow> t \<le> t')"
proof -
  from assms obtain r rs where rj: "rejections ps = r # rs" and e: "e = earliest r rs"
    by (auto simp: promiseAll_def split: list.splits)
  obtain t0 e0 where r: "r = (t0, e0)" by (cases r)
  from earliest_first [of t0 e0 rs] obtain t where
    m: "(t, e) \<in> set (rejections ps)" and f: "\<forall>p\<in>set (rejections ps). t \<le> fst p"
    unfolding rj r e by blast
  show ?thesis
  proof (intro exI [of _ t] conjI allI impI)
    from m show "(t, Inl e) \<in> set ps" by (simp add: rejections_set)
  next
    fix t' e'
    assume "(t', Inl e') \<in> set ps"
    then have "(t', e') \<in> set (rejections ps)" by (simp add: rejections_set)
    with f show "t \<le> t'" by fastforce
  qed
qed

lemma promiseAll_firstRejected:
  assumes "promiseAll (lookups w) = Inl e"
  shows "firstRejected w e"
proof -
  from promiseAll_first [OF assms] obtain t where
    m: "(t, Inl e) \<in> set (lookups w)" and f: "\<forall>t' e'. (t', Inl e') \<in> set (lookups w) \<longrightarrow> t \<le> t'"
    by blast
  from m obtain n where n: "n \<in> set (glueTableNameList w)" "t = responseTime w n" "tableOf w n = Inl e"
    by (auto simp: lookups_def)
  from n(3) have g: "getTableMetadata w n = Inl e"
    by (simp add: tableOf_def split: sum.splits)
  have "responseTime w n \<le> responseTime w m'"
    if "m' \<in> set (glueTableNameList w)" "getTableMetadata w m' = Inl e'" for m' e'
  proof -
    from that have "(responseTime w m', Inl e') \<in> set (lookups w)"
      by (force simp: lookups_def tableOf_def)
    with f n(2) show ?thesis by blast
  qed
  then have "list_all (\<lambda>m. case getTableMetadata w m of
                Inl e' \<Rightarrow> responseTime w n \<le> responseTime w m | Inr cs \<Rightarrow> True) (glueTableNameList w)"
    by (auto simp: list_all_iff split: sum.splits)
  with n(1) g show ?thesis
    by (auto simp: firstRejected_def list_ex_iff)
qed

lemma promiseAll_tables:
  assumes "promiseAll (map (\<lambda>n. (responseTime w n, tableOf w n)) names) = Inr tables"
  shows "map athName tables = names \<and> (\<forall>t\<in>set tables. pgName t = drop 6 (athName t)) \<and>
         list_all2 (\<lambda>t n. tableOf w n = Inr t) tables names"
  using assms
proof (induction names arbitrary: tables)
  case Nil
  then show ?case by (simp add: promiseAll_def)
next
  case (Cons n names)
  from Cons.prems obtain cs where cs: "getTableMetadata w n = Inr cs"
    by (cases "getTableMetadata w n") (simp_all add: tableOf_def promiseAll_def)
  then have hd: "tableOf w n = Inr \<lparr>athName = n, pgName = drop 6 n, columns = map Name cs\<rparr>"
    by (simp add: tableOf_def)
  from Cons.prems have
    rj: "rejections (map (\<lambda>n. (responseTime w n, tableOf w n)) names) = []"
    and tables: "tables = \<lparr>athName = n, pgName = drop 6 n, columns = map Name cs\<rparr> #
       fulfilments (map (\<lambda>n. (responseTime w n, tableOf w n)) names)"
    by (auto simp: promiseAll_def hd split: list.splits)
  from rj have "promiseAll (map (\<lambda>n. (responseTime w n, tableOf w n)) names) =
      Inr (fulfilments (map (\<lambda>n. (responseTime w n, tableOf w n)) names))"
    by (simp add: promiseAll_def)
  from Cons.IH [OF this] tables hd show ?case
    by simp
qed



subsection \<open>The process\<close>

lemma interrupted_quiet:
  "(\<And>h. poolError w h = None) \<Longrightarrow> interrupted w h evs = None"
  by (induction evs arbitrary: h) simp_all


lemma main_ended:
  assumes "insertTablesInOrder fuel w [] = Some (out, s)"
  shows "main fuel w =
     (let h = (if out = Returned then s @ [ConsoleLog ScriptCompleted] else s)
      in case interrupted w [] h of
           Some (h1, e) \<Rightarrow> Some (255, poolErrorHandler e h1)
         | None \<Rightarrow>
             (case out of
                Thrown e \<Rightarrow> Some (1, h)
              | Returned \<Rightarrow>
                  (case poolError w h of
                     Some e \<Rightarrow> Some (255, poolErrorHandler e h)
                   | None \<Rightarrow> Some (0, h))))"
proof -
  from assms have "insertTablesInOrderH fuel w [] = (Some out, s)"
    unfolding insertTablesInOrder_ended
    by (cases "insertTablesInOrderH fuel w []" rule: ended.cases) simp_all
  then show ?thesis
    by (cases out) (simp_all add: main_def Let_def split: option.splits)
qed

lemma main_ends:
  assumes "insertTablesInOrder fuel w [] = Some (out, s)"
  shows "\<exists>code h. main fuel w = Some (code, h)"
  unfolding main_ended [OF assms]
  by (auto simp: Let_def split: option.splits outcome.splits)

lemma main_quiet:
  assumes "\<And>h. poolError w h = None"
  shows "main fuel w =
     (case insertTablesInOrder fuel w [] of
        None \<Rightarrow> None
      | Some (Returned, s) \<Rightarrow> Some (0, s @ [ConsoleLog ScriptCompleted])
      | Some (Thrown e, s) \<Rightarrow> Some (1, s))"
proof (cases "insertTablesInOrderH fuel w []" rule: ended.cases)
  case (1 s)
  then show ?thesis
    by (simp add: insertTablesInOrder_ended main_def interrupted_quiet [OF assms])
next
  case (2 out s)
  then show ?thesis
    by (cases out) (simp_all add: insertTablesInOrder_ended main_def interrupted_quiet [OF assms] assms)
qed

subsection \<open>Evaluating the example runs\<close>

lemma digitChar_digits:
  "digitChar 0 = CHR ''0''" "digitChar (Suc 0) = CHR ''1''" "digitChar 1 = CHR ''1''"
  "digitChar 2 = CHR ''2''" "digitChar 3 = CHR ''3''" "digitChar 4 = CHR ''4''"
  "digitChar 5 = CHR ''5''" "digitChar 6 = CHR ''6''" "digitChar 7 = CHR ''7''"
  "digitChar 8 = CHR ''8''" "digitChar 9 = CHR ''9''"
  "digitChar (Suc (Suc 0)) = CHR ''2''"
  "digitChar (Suc (Suc (Suc 0))) = CHR ''3''"
  "digitChar (Suc (Suc (Suc (Suc 0)))) = CHR ''4''"
  "digitChar (Suc (Suc (Suc (Suc (Suc 0))))) = CHR ''5''"
  "digitChar (Suc (Suc (Suc (Suc (Suc (Suc 0)))))) = CHR ''6''"
  "digitChar (Suc (Suc (Suc (Suc (Suc (Suc (Suc 0))))))) = CHR ''7''"
  "digitChar (Suc (Suc (Suc (Suc (Suc (Suc (Suc (Suc 0)))))))) = CHR ''8''"
  "digitChar (Suc (Suc (Suc (Suc (Suc (Suc (Suc (Suc (Suc 0))))))))) = CHR ''9''"
  by code_simp+

lemma fetchResults_numeral:
  "fetchResults (numeral k) w qid pgTableName cols nextToken s =
     (case getQueryResults w qid nextToken of
        Inl e \<Rightarrow> Some (Thrown e, s @ [GetQueryResultsSent qid nextToken (Inl e)])
      | Inr resultsResponse \<Rightarrow>
          (case insertIntoPostgresAsBatch w pgTableName cols (pageRows nextToken resultsResponse)
                  (s @ [GetQueryResultsSent qid nextToken (Inr resultsResponse)]) of
             (Thrown e, s2) \<Rightarrow> Some (Thrown e, s2)
           | (Returned, s2) \<Rightarrow>
               if truthy (NextToken resultsResponse)
               then fetchResults (pred_numeral k) w qid pgTableName cols (NextToken resultsResponse) s2
               else Some (Returned, s2)))"
  by (subst numeral_eq_Suc) (rule fetchResults.simps)

lemma pollExecution_numeral:
  "pollExecution pages (numeral k) w qid pgTableName cols i s =
     (case getQueryExecution w qid i of
        Inl e \<Rightarrow> Some (Thrown e, s @ [GetQueryExecutionSent qid (Inl e)])
      | Inr response \<Rightarrow>
          (let s1 = s @ [GetQueryExecutionSent qid (Inr response)]
           in if State response = ''FAILED''
              then Some (Returned, s1 @ [ConsoleLog (QueryFailed (StateChangeReason response))])
              else if State response = ''SUCCEEDED''
              then fetchResults pages w qid pgTableName cols None
                     (s1 @ [ConsoleLog QuerySucceeded])
              else pollExecution pages (pred_numeral k) w qid pgTableName cols (Suc i)
                     (s1 @ [SetTimeout 5000])))"
  by (subst numeral_eq_Suc) (rule pollExecution.simps)

lemmas run_eval =
  insertTablesInOrder_def metadataEvents_def lookups_def promiseAll_def tableOf_def
  queryAthena_def queryString_def
  insertIntoPostgresAsBatch_def pageRows_def rowValues_def batchQuery_def batchValues_def
  valuePlaceholders_def rowPlaceholders_def rowPlaceholderIndices_def placeholderIndex_def
  columnsCountOf_def placeholder_def decimal.simps digitChar_digits truthy_def Let_def
  fetchResults_numeral pollExecution_numeral

lemma failedWorld_sel:
  "DB_SCHEMA failedWorld = ''public''"
  "glueTableNameList failedWorld = [''glue_table1'', ''glue_table2'']"
  "poolConnect failedWorld h = Inr ()"
  "clientQuery failedWorld = clientQuery exampleWorld"
  "getQueryResults failedWorld = getQueryResults exampleWorld"
  "getQueryExecution failedWorld ''q1'' 0 = Inr \<lparr>State = ''RUNNING'', StateChangeReason = None\<rparr>"
  "getQueryExecution failedWorld ''q1'' (Suc 0) = Inr \<lparr>State = ''RUNNING'', StateChangeReason = None\<rparr>"
  "getQueryExecution failedWorld ''q1'' (Suc (Suc 0)) =
     Inr \<lparr>State = ''FAILED'', StateChangeReason = Some ''syntax error''\<rparr>"
  "getQueryExecution failedWorld ''q2'' i = Inr \<lparr>State = ''SUCCEEDED'', StateChangeReason = None\<rparr>"
  "startQueryExecution failedWorld = startQueryExecution exampleWorld"
  "getTableMetadata failedWorld = getTableMetadata exampleWorld"
  "responseTime failedWorld n = 0"
  "poolError failedWorld h = None"
  by (simp_all add: failedWorld_def exampleWorld_sel)

lemma deniedWorld_sel:
  "DB_SCHEMA deniedWorld = ''public''"
  "glueTableNameList deniedWorld = [''glue_table1'', ''glue_table2'']"
  "poolConnect deniedWorld h = Inr ()"
  "clientQuery deniedWorld = clientQuery exampleWorld"
  "getQueryResults deniedWorld = getQueryResults exampleWorld"
  "getQueryExecution deniedWorld = getQueryExecution exampleWorld"
  "startQueryExecution deniedWorld ''SELECT id, name FROM glue_table1'' = Inl (Error ''AccessDeniedException'')"
  "startQueryExecution deniedWorld ''SELECT id FROM glue_table2'' = Inr ''q2''"
  "getTableMetadata deniedWorld = getTableMetadata exampleWorld"
  "responseTime deniedWorld n = 0"
  "poolError deniedWorld h = None"
  by (simp_all add: deniedWorld_def exampleWorld_sel)

lemma refusingWorld_sel:
  "DB_SCHEMA refusingWorld = ''public''"
  "glueTableNameList refusingWorld = [''glue_table1'', ''glue_table2'']"
  "poolConnect refusingWorld h = Inl (Error ''timeout exceeded when trying to connect'')"
  "clientQuery refusingWorld = clientQuery exampleWorld"
  "getQueryResults refusingWorld = getQueryResults exampleWorld"
  "getQueryExecution refusingWorld = getQueryExecution exampleWorld"
  "startQueryExecution refusingWorld = startQueryExecution exampleWorld"
  "getTableMetadata refusingWorld = getTableMetadata exampleWorld"
  "responseTime refusingWorld n = 0"
  "poolError refusingWorld h = None"
  by (simp_all add: refusingWorld_def exampleWorld_sel)

lemma brokenPoolWorld_sel:
  "DB_SCHEMA brokenPoolWorld = ''public''"
  "glueTableNameList brokenPoolWorld = [''glue_table1'', ''glue_table2'']"
  "poolConnect brokenPoolWorld h = Inr ()"
  "clientQuery brokenPoolWorld = clientQuery exampleWorld"
  "getQueryResults brokenPoolWorld = getQueryResults exampleWorld"
  "getQueryExecution brokenPoolWorld = getQueryExecution exampleWorld"
  "startQueryExecution brokenPoolWorld = startQueryExecution exampleWorld"
  "getTableMetadata brokenPoolWorld = getTableMetadata exampleWorld"
  "responseTime brokenPoolWorld n = 0"
  "poolError brokenPoolWorld h =
     (if ClientRelease \<in> set h then Some (Error ''Connection terminated unexpectedly'') else None)"
  by (simp_all add: brokenPoolWorld_def exampleWorld_sel)

lemma unknownTablesWorld_sel:
  "DB_SCHEMA unknownTablesWorld = ''public''"
  "glueTableNameList unknownTablesWorld = [''glue_table1'', ''glue_table2'']"
  "getTableMetadata unknownTablesWorld n = Inl (Error (''EntityNotFoundException: '' @ n))"
  "responseTime unknownTablesWorld ''glue_table1'' = 2"
  "responseTime unknownTablesWorld ''glue_table2'' = 1"
  "poolError unknownTablesWorld h = None"
  by (simp_all add: unknownTablesWorld_def exampleWorld_sel)

lemmas worlds_eval =
  exampleWorld_sel rejectingWorld_sel failedWorld_sel deniedWorld_sel refusingWorld_sel
  brokenPoolWorld_sel unknownTablesWorld_sel
  page_tokens page1_def page2_def headerOnly_def cell_def

lemmas example_eval = worlds_eval

text \<open>The process in a world whose pool emits no \<open>error\<close> event.\<close>

lemma quiet_pools:
  "poolError exampleWorld h = None" "poolError rejectingWorld h = None"
  "poolError failedWorld h = None" "poolError deniedWorld h = None"
  "poolError refusingWorld h = None" "poolError unknownTablesWorld h = None"
  by (simp_all add: worlds_eval)

lemmas main_eval =
  main_quiet [of exampleWorld, OF quiet_pools(1)]
  main_quiet [of rejectingWorld, OF quiet_pools(2)]
  main_quiet [of failedWorld, OF quiet_pools(3)]
  main_quiet [of deniedWorld, OF quiet_pools(4)]
  main_quiet [of refusingWorld, OF quiet_pools(5)]
  main_quiet [of unknownTablesWorld, OF quiet_pools(6)]

lemma example_exit: "map_option fst (main 3 exampleWorld) = Some 0"
  by (simp add: main_eval run_eval worlds_eval)





lemma unknownTables_run:
  "main 3 unknownTablesWorld =
     Some (1, [GetTableMetadataSent ''glue_table1'' (Inl (Error ''EntityNotFoundException: glue_table1'')),
               GetTableMetadataSent ''glue_table2'' (Inl (Error ''EntityNotFoundException: glue_table2''))])"
  "insertTablesInOrder 3 unknownTablesWorld [] =
     Some (Thrown (Error ''EntityNotFoundException: glue_table2''),
       [GetTableMetadataSent ''glue_table1'' (Inl (Error ''EntityNotFoundException: glue_table1'')),
        GetTableMetadataSent ''glue_table2'' (Inl (Error ''EntityNotFoundException: glue_table2''))])"
  by (simp_all add: main_eval run_eval worlds_eval)

lemma example_tables:
  "promiseAll (lookups exampleWorld) =
     Inr [\<lparr>athName = ''glue_table1'', pgName = ''able1'', columns = [''id'', ''name'']\<rparr>,
          \<lparr>athName = ''glue_table2'', pgName = ''able2'', columns = [''id'']\<rparr>]"
  "metadataEvents exampleWorld =
     [GetTableMetadataSent ''glue_table1'' (Inr [\<lparr>Name = ''id''\<rparr>, \<lparr>Name = ''name''\<rparr>]),
      GetTableMetadataSent ''glue_table2'' (Inr [\<lparr>Name = ''id''\<rparr>])]"
  by (simp_all add: lookups_def promiseAll_def metadataEvents_def tableOf_def worlds_eval)

lemma denied_tables:
  "promiseAll (lookups deniedWorld) = promiseAll (lookups exampleWorld)"
  "metadataEvents deniedWorld = metadataEvents exampleWorld"
  by (simp_all add: lookups_def metadataEvents_def tableOf_def worlds_eval)





subsection \<open>A failed execution\<close>

lemma pendingPolls_step:
  "i < k \<Longrightarrow> pendingPolls w qid i k =
     GetQueryExecutionSent qid (getQueryExecution w qid i) # SetTimeout 5000 # pendingPolls w qid (Suc i) k"
  by (simp add: pendingPolls_def upt_conv_Cons)

lemma pendingPolls_none [simp]: "pendingPolls w qid k k = []"
  by (simp add: pendingPolls_def)

lemma pollExecution_failed:
  assumes "\<forall>j<k. pending w qid j" "getQueryExecution w qid k = Inr r" "State r = ''FAILED''"
    and "i \<le> k" "k - i < n"
  shows "pollExecution pages n w qid t cols i s =
     Some (Returned, s @ pendingPolls w qid i k @
       [GetQueryExecutionSent qid (Inr r), ConsoleLog (QueryFailed (StateChangeReason r))])"
  using assms(4,5)
proof (induction n arbitrary: i s)
  case 0
  then show ?case by simp
next
  case (Suc n)
  show ?case
  proof (cases "i = k")
    case True
    then show ?thesis by (simp add: assms(2,3))
  next
    case False
    with Suc.prems have lt: "i < k" by simp
    with assms(1) have "pending w qid i" by simp
    then obtain ri where ri: "getQueryExecution w qid i = Inr ri"
      "State ri \<noteq> ''FAILED''" "State ri \<noteq> ''SUCCEEDED''"
      by (auto simp: pending_def split: sum.splits)
    have "pollExecution pages n w qid t cols (Suc i) (s @ [GetQueryExecutionSent qid (Inr ri), SetTimeout 5000]) =
      Some (Returned, (s @ [GetQueryExecutionSent qid (Inr ri), SetTimeout 5000]) @ pendingPolls w qid (Suc i) k @
       [GetQueryExecutionSent qid (Inr r), ConsoleLog (QueryFailed (StateChangeReason r))])"
      using lt Suc.prems by (intro Suc.IH) simp_all
    then show ?thesis
      using ri by (simp add: pendingPolls_step [OF lt] Let_def)
  qed
qed

lemma queryAthena_failed:
  assumes "startQueryExecution w (queryString cols ath) = Inr qid"
    and "\<forall>j<k. pending w qid j" "getQueryExecution w qid k = Inr r" "State r = ''FAILED''"
    and "k < fuel"
  shows "queryAthena fuel w ath pg cols s =
     Some (Returned,
       s @ [ConsoleLog (QueryingAthena ath),
            StartQueryExecutionSent (queryString cols ath) (Inr qid)] @
       pendingPolls w qid 0 k @
       [GetQueryExecutionSent qid (Inr r), ConsoleLog (QueryFailed (StateChangeReason r)),
        ConsoleLog (FinishedQuerying ath)])"
proof -
  have "pollExecution fuel fuel w qid pg cols 0
          (s @ [ConsoleLog (QueryingAthena ath), StartQueryExecutionSent (queryString cols ath) (Inr qid)]) =
     Some (Returned, (s @ [ConsoleLog (QueryingAthena ath),
            StartQueryExecutionSent (queryString cols ath) (Inr qid)]) @ pendingPolls w qid 0 k @
       [GetQueryExecutionSent qid (Inr r), ConsoleLog (QueryFailed (StateChangeReason r))])"
    using assms(5) by (intro pollExecution_failed [OF assms(2,3,4)]) simp_all
  then show ?thesis
    by (simp add: queryAthena_def assms(1))
qed

lemma forTables_append:
  "forTables fuel w (ts1 @ ts2) s =
     (case forTables fuel w ts1 s of
        Some (Returned, s1) \<Rightarrow> forTables fuel w ts2 s1
      | r \<Rightarrow> r)"
proof (induction ts1 arbitrary: s)
  case Nil
  show ?case by simp
next
  case (Cons t ts1)
  show ?case
  proof (cases "queryAthena fuel w (athName t) (pgName t) (columns t) s")
    case None
    then show ?thesis by simp
  next
    case (Some r)
    obtain out s1 where r: "r = (out, s1)" by (cases r)
    show ?thesis
      using Cons.IH [of s1] by (cases out) (simp_all add: Some r)
  qed
qed

text \<open>
  C6 as stated does not hold. An execution polled \<open>RUNNING\<close>, \<open>RUNNING\<close>,
  \<open>FAILED\<close>: the call returns after the log line with the reason and the closing
  log line; no error is raised.
\<close>

theorem failed_execution_counterexample:
  "queryAthena 3 failedWorld ''glue_table1'' ''able1'' [''id'', ''name''] [] =
     Some (Returned,
       [ConsoleLog (QueryingAthena ''glue_table1''),
        StartQueryExecutionSent ''SELECT id, name FROM glue_table1'' (Inr ''q1''),
        GetQueryExecutionSent ''q1'' (Inr \<lparr>State = ''RUNNING'', StateChangeReason = None\<rparr>),
        SetTimeout 5000,
        GetQueryExecutionSent ''q1'' (Inr \<lparr>State = ''RUNNING'', StateChangeReason = None\<rparr>),
        SetTimeout 5000,
        GetQueryExecutionSent ''q1''
          (Inr \<lparr>State = ''FAILED'', StateChangeReason = Some ''syntax error''\<rparr>),
        ConsoleLog (QueryFailed (Some ''syntax error'')),
        ConsoleLog (FinishedQuerying ''glue_table1'')])"
  by (simp add: run_eval worlds_eval)

lemma pendingPolls_observed:
  "pagesFetched (pendingPolls w qid i k) = [] \<and> batchesHanded (pendingPolls w qid i k) = [] \<and>
   insertStatements (pendingPolls w qid i k) = []"
  by (simp add: pendingPolls_def pagesFetched_def batchesHanded_def insertStatements_def)

text \<open>
  C6 (as amended): when the polls of an execution find it pending \<open>k\<close> times and then
  \<open>FAILED\<close>, \<open>queryAthena\<close> returns, and no exception is raised. What it did is
  fixed: one submission, the \<open>k + 1\<close> polls, the log line with the reason that the
  service reported, the closing log line; no page was fetched and nothing was handed
  to the loader. The loop over the tables goes on with the next table.
\<close>

theorem failed_execution_is_logged_and_skipped:
  assumes "startQueryExecution w (queryString (columns t) (athName t)) = Inr qid"
    and "\<forall>j<k. pending w qid j"
    and "getQueryExecution w qid k = Inr r" "State r = ''FAILED''"
    and "k < fuel"
  shows "\<exists>new.
     new = [ConsoleLog (QueryingAthena (athName t)),
            StartQueryExecutionSent (queryString (columns t) (athName t)) (Inr qid)] @
           pendingPolls w qid 0 k @
           [GetQueryExecutionSent qid (Inr r), ConsoleLog (QueryFailed (StateChangeReason r)),
            ConsoleLog (FinishedQuerying (athName t))] \<and>
     queryAthena fuel w (athName t) (pgName t) (columns t) s = Some (Returned, s @ new) \<and>
     pagesFetched new = [] \<and> batchesHanded new = [] \<and> insertStatements new = [] \<and>
     forTables fuel w (t # ts) s = forTables fuel w ts (s @ new)"
proof -
  note q = queryAthena_failed [OF assms, of "pgName t" s]
  show ?thesis
    by (rule exI, rule conjI, rule refl)
      (simp add: q pendingPolls_observed)
qed

theorem failed_execution_is_logged_and_skipped_witness:
  "startQueryExecution failedWorld ''SELECT id, name FROM glue_table1'' = Inr ''q1'' \<and>
   pending failedWorld ''q1'' 0 \<and> pending failedWorld ''q1'' 1 \<and>
   getQueryExecution failedWorld ''q1'' 2 =
     Inr \<lparr>State = ''FAILED'', StateChangeReason = Some ''syntax error''\<rparr> \<and>
   map_option fst (queryAthena 3 failedWorld ''glue_table1'' ''able1'' [''id'', ''name''] []) =
     Some Returned \<and>
   forTables 3 failedWorld
     [\<lparr>athName = ''glue_table1'', pgName = ''able1'', columns = [''id'', ''name'']\<rparr>,
      \<lparr>athName = ''glue_table2'', pgName = ''able2'', columns = [''id'']\<rparr>] [] =
   forTables 3 failedWorld [\<lparr>athName = ''glue_table2'', pgName = ''able2'', columns = [''id'']\<rparr>]
     ([ConsoleLog (QueryingAthena ''glue_table1''),
       StartQueryExecutionSent ''SELECT id, name FROM glue_table1'' (Inr ''q1'')] @
      pendingPolls failedWorld ''q1'' 0 2 @
      [GetQueryExecutionSent ''q1''
         (Inr \<lparr>State = ''FAILED'', StateChangeReason = Some ''syntax error''\<rparr>),
       ConsoleLog (QueryFailed (Some ''syntax error'')),
       ConsoleLog (FinishedQuerying ''glue_table1'')])"
proof -
  let ?t = "\<lparr>athName = ''glue_table1'', pgName = ''able1'', columns = [''id'', ''name'']\<rparr>"
  let ?r = "\<lparr>State = ''FAILED'', StateChangeReason = Some ''syntax error''\<rparr>"
  have a: "startQueryExecution failedWorld (queryString (columns ?t) (athName ?t)) = Inr ''q1''"
    by (simp add: queryString_def worlds_eval)
  have p0: "pending failedWorld ''q1'' 0" and p1: "pending failedWorld ''q1'' 1"
    by (simp_all add: pending_def worlds_eval)
  then have b: "\<forall>j<2. pending failedWorld ''q1'' j"
    by (simp add: less_Suc_eq numeral_2_eq_2)
  have c: "getQueryExecution failedWorld ''q1'' 2 = Inr ?r"
    by (simp add: worlds_eval numeral_2_eq_2)
  have d: "State ?r = ''FAILED''" by simp
  have e: "(2::nat) < 3" by simp
  note inst = failed_execution_is_logged_and_skipped [OF a b c d e, of "[]"
      "[\<lparr>athName = ''glue_table2'', pgName = ''able2'', columns = [''id'']\<rparr>]"]
  have s: "startQueryExecution failedWorld ''SELECT id, name FROM glue_table1'' = Inr ''q1''"
    using a by (simp add: queryString_def)
  from inst have q: "map_option fst (queryAthena 3 failedWorld ''glue_table1'' ''able1'' [''id'', ''name''] []) =
     Some Returned"
    by auto
  from inst have f: "forTables 3 failedWorld
     [?t, \<lparr>athName = ''glue_table2'', pgName = ''able2'', columns = [''id'']\<rparr>] [] =
   forTables 3 failedWorld [\<lparr>athName = ''glue_table2'', pgName = ''able2'', columns = [''id'']\<rparr>]
     ([ConsoleLog (QueryingAthena ''glue_table1''),
       StartQueryExecutionSent ''SELECT id, name FROM glue_table1'' (Inr ''q1'')] @
      pendingPolls failedWorld ''q1'' 0 2 @
      [GetQueryExecutionSent ''q1'' (Inr ?r),
       ConsoleLog (QueryFailed (Some ''syntax error'')),
       ConsoleLog (FinishedQuerying ''glue_table1'')])"
    by (auto simp: queryString_def)
  show ?thesis
    by (intro conjI, fact s, fact p0, fact p1, fact c, fact q, fact f)
qed

subsection \<open>The loading of one table\<close>

lemma batchQuery_prefix:
  "prefix (''INSERT INTO '' @ schema @ ''.'' @ tn @ '' ('') (batchQuery schema tn cols rows)"
  by (simp add: batchQuery_def)

lemma insertIntoPostgresAsBatch_loads:
  assumes "insertIntoPostgresAsBatch w (pgName t) (columns t) rows s = (out, s')"
  shows "\<exists>new. s' = s @ new \<and> list_all (inTable (DB_SCHEMA w) t) new \<and>
           list_all (ofExecution qid) new \<and>
           batchesHanded new = [rows] \<and> pagesFetched new = [] \<and>
           insertStatements new =
             (if out = Returned then [batchQuery (DB_SCHEMA w) (pgName t) (columns t) rows] else [])"
  using assms batchQuery_prefix [of "DB_SCHEMA w" "pgName t" "columns t" rows]
  by (auto simp: insertIntoPostgresAsBatch_def Let_def split: sum.splits)

lemma loads_page:
  assumes "loads w t out new2" "list_all (inTable (DB_SCHEMA w) t) new1"
    and "batchesHanded new1 = [pageRows tok r]" "pagesFetched new1 = []"
    and "insertStatements new1 = [batchQuery (DB_SCHEMA w) (pgName t) (columns t) (pageRows tok r)]"
  shows "loads w t out (GetQueryResultsSent qid tok (Inr r) # new1 @ new2)"
proof -
  let ?bq = "batchQuery (DB_SCHEMA w) (pgName t) (columns t)"
  from assms(1) have a: "list_all (inTable (DB_SCHEMA w) t) new2"
    and b: "batchesHanded new2 = map (\<lambda>(tok, r). pageRows tok r) (pagesFetched new2)"
    and c: "prefix (insertStatements new2) (map ?bq (batchesHanded new2))"
    and d: "length (batchesHanded new2) \<le> Suc (length (insertStatements new2))"
    and e: "out = Returned \<longrightarrow> insertStatements new2 = map ?bq (batchesHanded new2)"
    unfolding loads_def by blast+
  have b': "batchesHanded (GetQueryResultsSent qid tok (Inr r) # new1 @ new2) =
      pageRows tok r # batchesHanded new2"
    by (simp add: assms(3))
  have p': "pagesFetched (GetQueryResultsSent qid tok (Inr r) # new1 @ new2) =
      (tok, r) # pagesFetched new2"
    by (simp add: assms(4))
  have i': "insertStatements (GetQueryResultsSent qid tok (Inr r) # new1 @ new2) =
      ?bq (pageRows tok r) # insertStatements new2"
    by (simp add: assms(5))
  show ?thesis
    unfolding loads_def b' p' i'
    using a b c d e assms(2) by simp
qed

lemma fetchResults_loads:
  assumes "fetchResults n w qid (pgName t) (columns t) tok s = Some (out, s')"
  shows "\<exists>new. s' = s @ new \<and> loads w t out new \<and> list_all (ofExecution qid) new"
  using assms
proof (induction n arbitrary: tok s)
  case 0
  then show ?case by simp
next
  case (Suc n)
  show ?case
  proof (cases "getQueryResults w qid tok")
    case (Inl e)
    with Suc.prems show ?thesis by (auto simp: loads_def)
  next
    case (Inr r)
    let ?s0 = "s @ [GetQueryResultsSent qid tok (Inr r)]"
    let ?bq = "batchQuery (DB_SCHEMA w) (pgName t) (columns t)"
    obtain o1 s1 where
      b: "insertIntoPostgresAsBatch w (pgName t) (columns t) (pageRows tok r) ?s0 = (o1, s1)"
      by (cases "insertIntoPostgresAsBatch w (pgName t) (columns t) (pageRows tok r) ?s0")
    from insertIntoPostgresAsBatch_loads [OF b, of qid] obtain new1 where
      n1: "s1 = ?s0 @ new1" and e1: "list_all (inTable (DB_SCHEMA w) t) new1"
      and x1: "list_all (ofExecution qid) new1"
      and b1: "batchesHanded new1 = [pageRows tok r]" and p1: "pagesFetched new1 = []"
      and i1: "insertStatements new1 = (if o1 = Returned then [?bq (pageRows tok r)] else [])"
      by blast
    show ?thesis
    proof (cases "o1 = Returned \<and> truthy (NextToken r)")
      case False
      with Suc.prems Inr b have "s' = s1 \<and> out = o1"
        by (cases o1) (auto split: if_splits)
      with n1 e1 x1 b1 p1 i1 show ?thesis
        by (intro exI [of _ "GetQueryResultsSent qid tok (Inr r) # new1"]) (simp add: loads_def)
    next
      case True
      with Suc.prems Inr b
      have "fetchResults n w qid (pgName t) (columns t) (NextToken r) s1 = Some (out, s')"
        by simp
      from Suc.IH [OF this] obtain new2 where
        n2: "s' = s1 @ new2" and e2: "loads w t out new2" and x2: "list_all (ofExecution qid) new2"
        by blast
      from True i1 have "insertStatements new1 = [?bq (pageRows tok r)]" by simp
      note l = loads_page [OF e2 e1 b1 p1 this, of qid]
      show ?thesis
        using n1 n2 x1 x2 l
        by (intro exI [of _ "GetQueryResultsSent qid tok (Inr r) # new1 @ new2"]) simp
    qed
  qed
qed

lemma loads_Cons:
  "inTable (DB_SCHEMA w) t ev \<Longrightarrow> handed ev = [] \<Longrightarrow> fetched ev = [] \<Longrightarrow> statement ev = [] \<Longrightarrow>
     loads w t out (ev # new) = loads w t out new"
  by (simp add: loads_def)

lemma pollExecution_loads:
  assumes "pollExecution pages n w qid (pgName t) (columns t) i s = Some (out, s')"
  shows "\<exists>new. s' = s @ new \<and> loads w t out new \<and> list_all (ofExecution qid) new"
  using assms
proof (induction n arbitrary: i s)
  case 0
  then show ?case by simp
next
  case (Suc n)
  show ?case
  proof (cases "getQueryExecution w qid i")
    case (Inl e)
    with Suc.prems show ?thesis by (auto simp: loads_def)
  next
    case (Inr r)
    let ?ev = "GetQueryExecutionSent qid (Inr r)"
    consider (failed) "State r = ''FAILED''"
      | (succeeded) "State r \<noteq> ''FAILED''" "State r = ''SUCCEEDED''"
      | (pending) "State r \<noteq> ''FAILED''" "State r \<noteq> ''SUCCEEDED''"
      by blast
    then show ?thesis
    proof cases
      case failed
      with Suc.prems Inr show ?thesis by (auto simp: Let_def loads_def)
    next
      case succeeded
      with Suc.prems Inr
      have "fetchResults pages w qid (pgName t) (columns t) None
              (s @ [?ev, ConsoleLog QuerySucceeded]) = Some (out, s')"
        by (simp add: Let_def)
      from fetchResults_loads [OF this] obtain new where
        "s' = (s @ [?ev, ConsoleLog QuerySucceeded]) @ new" "loads w t out new"
        "list_all (ofExecution qid) new"
        by blast
      then show ?thesis
        by (intro exI [of _ "?ev # ConsoleLog QuerySucceeded # new"]) (simp add: loads_Cons)
    next
      case pending
      with Suc.prems Inr
      have "pollExecution pages n w qid (pgName t) (columns t) (Suc i)
              (s @ [?ev, SetTimeout 5000]) = Some (out, s')"
        by (simp add: Let_def)
      from Suc.IH [OF this] obtain new where
        "s' = (s @ [?ev, SetTimeout 5000]) @ new" "loads w t out new" "list_all (ofExecution qid) new"
        by blast
      then show ?thesis
        by (intro exI [of _ "?ev # SetTimeout 5000 # new"]) (simp add: loads_Cons)
    qed
  qed
qed

lemma fetchResults_returned_served:
  assumes "fetchResults n w qid t cols tok s = Some (Returned, s')"
  shows "\<exists>new. s' = s @ new \<and> servedPages w qid tok (map snd (pagesFetched new))"
  using assms
proof (induction n arbitrary: tok s)
  case 0
  then show ?case by simp
next
  case (Suc n)
  from Suc.prems obtain r where g: "getQueryResults w qid tok = Inr r"
    by (cases "getQueryResults w qid tok") simp_all
  let ?s0 = "s @ [GetQueryResultsSent qid tok (Inr r)]"
  obtain o1 s1 where b: "insertIntoPostgresAsBatch w t cols (pageRows tok r) ?s0 = (o1, s1)"
    by (cases "insertIntoPostgresAsBatch w t cols (pageRows tok r) ?s0")
  from insertIntoPostgresAsBatch_observed [OF b] obtain new1 where
    n1: "s1 = ?s0 @ new1" and p1: "pagesFetched new1 = []"
    by blast
  from Suc.prems g b have o1: "o1 = Returned"
    by (cases o1) simp_all
  show ?case
  proof (cases "truthy (NextToken r)")
    case False
    with Suc.prems g b o1 have "s' = s1" by simp
    with n1 p1 g False show ?thesis
      by (intro exI [of _ "GetQueryResultsSent qid tok (Inr r) # new1"]) simp
  next
    case True
    with Suc.prems g b o1 have "fetchResults n w qid t cols (NextToken r) s1 = Some (Returned, s')"
      by simp
    from Suc.IH [OF this] obtain new2 where
      n2: "s' = s1 @ new2" and p2: "servedPages w qid (NextToken r) (map snd (pagesFetched new2))"
      by blast
    from n1 n2 p1 p2 g True show ?thesis
      by (intro exI [of _ "GetQueryResultsSent qid tok (Inr r) # new1 @ new2"]) simp
  qed
qed

lemma pollExecution_returned:
  assumes "pollExecution pages n w qid t cols i s = Some (Returned, s')"
  shows "\<exists>k r. i \<le> k \<and> (\<forall>j. i \<le> j \<and> j < k \<longrightarrow> pending w qid j) \<and>
           getQueryExecution w qid k = Inr r \<and>
           (if State r = ''FAILED''
            then s' = s @ pendingPolls w qid i k @
                   [GetQueryExecutionSent qid (Inr r), ConsoleLog (QueryFailed (StateChangeReason r))]
            else State r = ''SUCCEEDED'' \<and>
                 (\<exists>new. s' = s @ pendingPolls w qid i k @
                           [GetQueryExecutionSent qid (Inr r), ConsoleLog QuerySucceeded] @ new \<and>
                    servedPages w qid None (map snd (pagesFetched new))))"
  using assms
proof (induction n arbitrary: i s)
  case 0
  then show ?case by simp
next
  case (Suc n)
  from Suc.prems obtain r where g: "getQueryExecution w qid i = Inr r"
    by (cases "getQueryExecution w qid i") simp_all
  let ?ev = "GetQueryExecutionSent qid (Inr r)"
  consider (failed) "State r = ''FAILED''"
    | (succeeded) "State r \<noteq> ''FAILED''" "State r = ''SUCCEEDED''"
    | (pending) "State r \<noteq> ''FAILED''" "State r \<noteq> ''SUCCEEDED''"
    by blast
  then show ?case
  proof cases
    case failed
    with Suc.prems g have "s' = s @ [?ev, ConsoleLog (QueryFailed (StateChangeReason r))]"
      by (simp add: Let_def)
    with g failed show ?thesis
      by (intro exI [of _ i] exI [of _ r]) auto
  next
    case succeeded
    with Suc.prems g
    have "fetchResults pages w qid t cols None (s @ [?ev, ConsoleLog QuerySucceeded]) = Some (Returned, s')"
      by (simp add: Let_def)
    from fetchResults_returned_served [OF this] obtain new where
      "s' = (s @ [?ev, ConsoleLog QuerySucceeded]) @ new"
      "servedPages w qid None (map snd (pagesFetched new))"
      by blast
    with g succeeded show ?thesis
      by (intro exI [of _ i] exI [of _ r]) auto
  next
    case pending
    with Suc.prems g
    have "pollExecution pages n w qid t cols (Suc i) (s @ [?ev, SetTimeout 5000]) = Some (Returned, s')"
      by (simp add: Let_def)
    from Suc.IH [OF this] obtain k r' where k: "Suc i \<le> k"
      and pj: "\<forall>j. Suc i \<le> j \<and> j < k \<longrightarrow> pending w qid j"
      and gk: "getQueryExecution w qid k = Inr r'"
      and c: "if State r' = ''FAILED''
            then s' = (s @ [?ev, SetTimeout 5000]) @ pendingPolls w qid (Suc i) k @
                   [GetQueryExecutionSent qid (Inr r'), ConsoleLog (QueryFailed (StateChangeReason r'))]
            else State r' = ''SUCCEEDED'' \<and>
                 (\<exists>new. s' = (s @ [?ev, SetTimeout 5000]) @ pendingPolls w qid (Suc i) k @
                           [GetQueryExecutionSent qid (Inr r'), ConsoleLog QuerySucceeded] @ new \<and>
                    servedPages w qid None (map snd (pagesFetched new)))"
      by blast
    from k have lt: "i < k" by simp
    have pi: "pending w qid i"
      using g pending by (simp add: pending_def)
    have all: "\<forall>j. i \<le> j \<and> j < k \<longrightarrow> pending w qid j"
    proof (intro allI impI)
      fix j
      assume "i \<le> j \<and> j < k"
      then show "pending w qid j"
        using pi pj by (cases "j = i") auto
    qed
    have step: "pendingPolls w qid i k = ?ev # SetTimeout 5000 # pendingPolls w qid (Suc i) k"
      using pendingPolls_step [OF lt, of w qid] g by simp
    from lt have le: "i \<le> k" by simp
    have "if State r' = ''FAILED''
            then s' = s @ pendingPolls w qid i k @
                   [GetQueryExecutionSent qid (Inr r'), ConsoleLog (QueryFailed (StateChangeReason r'))]
            else State r' = ''SUCCEEDED'' \<and>
                 (\<exists>new. s' = s @ pendingPolls w qid i k @
                           [GetQueryExecutionSent qid (Inr r'), ConsoleLog QuerySucceeded] @ new \<and>
                    servedPages w qid None (map snd (pagesFetched new)))"
      using c unfolding step by (cases "State r' = ''FAILED''") auto
    with le all gk show ?thesis
      by (intro exI [of _ k] exI [of _ r']) simp
  qed
qed

lemma length_pendingPolls: "length (pendingPolls w qid i k) = 2 * (k - i)"
proof -
  have "length (concat (map (\<lambda>j. [GetQueryExecutionSent qid (getQueryExecution w qid j), SetTimeout 5000]) xs)) =
      2 * length xs" for xs
    by (induction xs) simp_all
  then show ?thesis by (simp add: pendingPolls_def)
qed

lemma pollExecution_extracted:
  assumes "pollExecution pages n w qid t cols 0 s = Some (Returned, s @ mid)"
  shows "extracted w qid mid"
proof -
  from pollExecution_returned [OF assms] obtain k r where
    pj: "\<forall>j. j < k \<longrightarrow> pending w qid j"
    and gk: "getQueryExecution w qid k = Inr r"
    and c: "if State r = ''FAILED''
            then s @ mid = s @ pendingPolls w qid 0 k @
                   [GetQueryExecutionSent qid (Inr r), ConsoleLog (QueryFailed (StateChangeReason r))]
            else State r = ''SUCCEEDED'' \<and>
                 (\<exists>new. s @ mid = s @ pendingPolls w qid 0 k @
                           [GetQueryExecutionSent qid (Inr r), ConsoleLog QuerySucceeded] @ new \<and>
                    servedPages w qid None (map snd (pagesFetched new)))"
    by auto
  from pj have pend: "list_all (pending w qid) [0..<k]"
    by (simp add: list_all_iff)
  have body: "k < length mid \<and>
        (if State r = ''FAILED''
             then mid = pendingPolls w qid 0 k @
                    [GetQueryExecutionSent qid (Inr r), ConsoleLog (QueryFailed (StateChangeReason r))]
             else State r = ''SUCCEEDED'' \<and>
                  take (2 * k + 2) mid = pendingPolls w qid 0 k @
                    [GetQueryExecutionSent qid (Inr r), ConsoleLog QuerySucceeded] \<and>
                  servedPages w qid None (map snd (pagesFetched (drop (2 * k + 2) mid))))"
  proof (cases "State r = ''FAILED''")
    case True
    with c have "mid = pendingPolls w qid 0 k @
        [GetQueryExecutionSent qid (Inr r), ConsoleLog (QueryFailed (StateChangeReason r))]"
      by simp
    moreover from this have "length mid = 2 * k + 2"
      by (simp add: length_pendingPolls)
    ultimately show ?thesis using True by simp
  next
    case False
    with c obtain new where su: "State r = ''SUCCEEDED''"
      and m: "mid = pendingPolls w qid 0 k @
                [GetQueryExecutionSent qid (Inr r), ConsoleLog QuerySucceeded] @ new"
      and sp: "servedPages w qid None (map snd (pagesFetched new))"
      by auto
    let ?hd = "pendingPolls w qid 0 k @ [GetQueryExecutionSent qid (Inr r), ConsoleLog QuerySucceeded]"
    have l: "length ?hd = 2 * k + 2"
      by (simp add: length_pendingPolls)
    from m have m': "mid = ?hd @ new" by simp
    have "take (2 * k + 2) mid = ?hd" "drop (2 * k + 2) mid = new"
      unfolding m' using l by simp_all
    moreover from m' l have "k < length mid" by simp
    ultimately show ?thesis using False su sp by simp
  qed
  then have "k \<in> set [0..<length mid]" by simp
  moreover have "list_all (pending w qid) [0..<k] \<and>
        (case getQueryExecution w qid k of
           Inl e \<Rightarrow> False
         | Inr r \<Rightarrow>
             if State r = ''FAILED''
             then mid = pendingPolls w qid 0 k @
                    [GetQueryExecutionSent qid (Inr r), ConsoleLog (QueryFailed (StateChangeReason r))]
             else State r = ''SUCCEEDED'' \<and>
                  take (2 * k + 2) mid = pendingPolls w qid 0 k @
                    [GetQueryExecutionSent qid (Inr r), ConsoleLog QuerySucceeded] \<and>
                  servedPages w qid None (map snd (pagesFetched (drop (2 * k + 2) mid))))"
    unfolding gk sum.case using pend body by blast
  ultimately show ?thesis
    unfolding extracted_def list_ex_iff by (rule bexI [rotated])
qed

text \<open>The history of one call of \<open>queryAthena\<close>, as the loop over the tables makes it.\<close>

lemma queryAthena_run:
  assumes "queryAthena fuel w (athName t) (pgName t) (columns t) s = Some (out, s')"
  shows "\<exists>seg. s' = s @ seg \<and> tableRun w t out seg"
proof -
  from queryAthena_ends [OF assms] obtain seg where
    seg: "s' = s @ seg" and e: "endsAs out seg"
    by blast
  show ?thesis
  proof (cases "startQueryExecution w (queryString (columns t) (athName t))")
    case (Inl e')
    with assms seg have "out = Thrown e'"
      "seg = [ConsoleLog (QueryingAthena (athName t)),
              StartQueryExecutionSent (queryString (columns t) (athName t)) (Inl e')]"
      by (auto simp: queryAthena_def)
    with seg e Inl show ?thesis
      by (intro exI [of _ seg]) (simp add: tableRun_def stepsOf_def loads_def)
  next
    case (Inr qid)
    let ?s0 = "s @ [ConsoleLog (QueryingAthena (athName t)),
                    StartQueryExecutionSent (queryString (columns t) (athName t)) (Inr qid)]"
    from assms Inr obtain o1 s1 where
      p: "pollExecution fuel fuel w qid (pgName t) (columns t) 0 ?s0 = Some (o1, s1)"
      by (cases "pollExecution fuel fuel w qid (pgName t) (columns t) 0 ?s0") (auto simp: queryAthena_def)
    from pollExecution_loads [OF p] obtain mid where
      n: "s1 = ?s0 @ mid" and l: "loads w t o1 mid" and x: "list_all (ofExecution qid) mid"
      by blast
    show ?thesis
    proof (cases o1)
      case Returned
      with assms Inr p have o: "out = Returned" and s': "s' = s1 @ [ConsoleLog (FinishedQuerying (athName t))]"
        by (simp_all add: queryAthena_def)
      from s' n seg have "seg = take 2 (stepsOf w t) @ mid @ drop 2 (stepsOf w t)"
        by (simp add: stepsOf_def Inr)
      moreover from this have "butlast (drop 2 seg) = mid"
        by (simp add: stepsOf_def butlast_append)
      moreover from p n Returned have "extracted w qid mid"
        by (intro pollExecution_extracted [of fuel fuel w qid "pgName t" "columns t" ?s0]) simp
      ultimately show ?thesis
        using seg e l x Inr o Returned
        by (intro exI [of _ seg]) (simp add: tableRun_def)
    next
      case (Thrown y)
      with assms Inr p have o: "out = Thrown y" and s': "s' = s1"
        by (simp_all add: queryAthena_def)
      from s' n seg have "seg = take 2 (stepsOf w t) @ mid"
        by (simp add: stepsOf_def Inr)
      moreover from this have "drop 2 seg = mid"
        by (simp add: stepsOf_def)
      ultimately show ?thesis
        using seg e l x Inr o Thrown
        by (intro exI [of _ seg]) (simp add: tableRun_def)
    qed
  qed
qed

lemma tableRun_segment:
  assumes "tableRun w t out seg"
  shows "\<exists>mid. seg = take 2 (stepsOf w t) @ mid @ (if out = Returned then drop 2 (stepsOf w t) else []) \<and>
           list_all (inTable (DB_SCHEMA w) t) mid"
  using assms unfolding tableRun_def Let_def loads_def by blast

lemma queryAthena_segment:
  assumes "queryAthena fuel w (athName t) (pgName t) (columns t) s = Some (out, s')"
  shows "\<exists>mid. s' = s @ take 2 (stepsOf w t) @ mid @ (if out = Returned then drop 2 (stepsOf w t) else []) \<and>
           list_all (inTable (DB_SCHEMA w) t) mid"
proof -
  from queryAthena_run [OF assms] obtain seg where "s' = s @ seg" "tableRun w t out seg"
    by blast
  with tableRun_segment [of w t out seg] show ?thesis by auto
qed

lemma forTables_runs:
  assumes "forTables fuel w ts s = Some (out, s')"
  shows "\<exists>segs. s' = s @ concat segs \<and> tableRuns w out ts segs"
  using assms
proof (induction ts arbitrary: s)
  case Nil
  then show ?case by simp
next
  case (Cons t ts)
  from Cons.prems obtain o1 s1 where
    q: "queryAthena fuel w (athName t) (pgName t) (columns t) s = Some (o1, s1)"
    by (cases "queryAthena fuel w (athName t) (pgName t) (columns t) s") auto
  from queryAthena_run [OF q] obtain seg where
    n1: "s1 = s @ seg" and g1: "tableRun w t o1 seg"
    by blast
  show ?case
  proof (cases o1)
    case Returned
    with Cons.prems q have "forTables fuel w ts s1 = Some (out, s')" by simp
    from Cons.IH [OF this] obtain segs where
      n2: "s' = s1 @ concat segs" and g2: "tableRuns w out ts segs"
      by blast
    show ?thesis
    proof (cases segs)
      case Nil
      with g2 have "ts = []" "out = Returned"
        by (cases ts; simp)+
      with n1 n2 g1 Returned Nil show ?thesis
        by (intro exI [of _ "[seg]"]) simp
    next
      case (Cons seg' segs')
      with n1 n2 g1 g2 Returned show ?thesis
        by (intro exI [of _ "seg # segs"]) simp
    qed
  next
    case (Thrown y)
    with Cons.prems q have "out = Thrown y" "s' = s1" by simp_all
    with n1 g1 Thrown show ?thesis
      by (intro exI [of _ "[seg]"]) simp
  qed
qed

subsection \<open>A rejected statement and a refused connection\<close>

lemma fetchResults_refused:
  assumes "getQueryResults w qid tok = Inr p"
    and "poolConnect w (s @ [GetQueryResultsSent qid tok (Inr p),
           InsertBatchCalled t cols (pageRows tok p),
           ConsoleLog (NumberOfRows t (length (pageRows tok p)))]) = Inl e"
  shows "fetchResults (Suc n) w qid t cols tok s =
     Some (Thrown e, s @ [GetQueryResultsSent qid tok (Inr p),
           InsertBatchCalled t cols (pageRows tok p),
           ConsoleLog (NumberOfRows t (length (pageRows tok p))),
           PoolConnectCalled (Inl e)])"
  using assms(2)
    insertIntoPostgresAsBatch_refused [of w "s @ [GetQueryResultsSent qid tok (Inr p)]" t cols
      "pageRows tok p" e]
  by (simp add: assms(1))

lemma fetchResults_served:
  assumes "servedPages w qid tok pages" "length pages \<le> fuel" "\<And>h. poolConnect w h = Inr ()"
  shows "\<exists>new. fetchResults fuel w qid t cols tok s = Some (Returned, s @ new) \<and>
           map snd (pagesFetched new) = pages \<and>
           insertStatements new = map (batchQuery (DB_SCHEMA w) t cols) (batchesHanded new)"
  using assms(1,2)
proof (induction pages arbitrary: tok fuel s)
  case Nil
  then show ?case by simp
next
  case (Cons p ps)
  from Cons.prems(2) obtain n where fuel: "fuel = Suc n" and len: "length ps \<le> n"
    by (cases fuel) simp_all
  from Cons.prems(1) have g: "getQueryResults w qid tok = Inr p"
    and rest: "if truthy (NextToken p) then servedPages w qid (NextToken p) ps else ps = []"
    by simp_all
  let ?s0 = "s @ [GetQueryResultsSent qid tok (Inr p)]"
  let ?rows = "pageRows tok p"
  define new1 where "new1 =
     [InsertBatchCalled t cols ?rows, ConsoleLog (NumberOfRows t (length ?rows)),
      PoolConnectCalled (Inr ()),
      ClientQueryCalled (batchQuery (DB_SCHEMA w) t cols ?rows) (batchValues ?rows)
        (clientQuery w (?s0 @ [InsertBatchCalled t cols ?rows,
           ConsoleLog (NumberOfRows t (length ?rows)), PoolConnectCalled (Inr ())])
           (batchQuery (DB_SCHEMA w) t cols ?rows) (batchValues ?rows)),
      ConsoleLog (case clientQuery w (?s0 @ [InsertBatchCalled t cols ?rows,
           ConsoleLog (NumberOfRows t (length ?rows)), PoolConnectCalled (Inr ())])
           (batchQuery (DB_SCHEMA w) t cols ?rows) (batchValues ?rows) of
         Inr rowCount \<Rightarrow> InsertedRows rowCount t
       | Inl e \<Rightarrow> InsertError (Some t) e),
      ClientRelease]"
  have b: "insertIntoPostgresAsBatch w t cols ?rows ?s0 = (Returned, ?s0 @ new1)"
    unfolding new1_def by (rule insertIntoPostgresAsBatch_connected) (rule assms(3))
  have o1: "pagesFetched new1 = []" "batchesHanded new1 = [?rows]"
    "insertStatements new1 = [batchQuery (DB_SCHEMA w) t cols ?rows]"
    by (simp_all add: new1_def)
  show ?case
  proof (cases "truthy (NextToken p)")
    case False
    with rest have ps: "ps = []" by simp
    have "fetchResults (Suc n) w qid t cols tok s =
        Some (Returned, s @ GetQueryResultsSent qid tok (Inr p) # new1)"
      using False by (simp add: g b)
    then show ?thesis
      unfolding fuel
      by (intro exI [of _ "GetQueryResultsSent qid tok (Inr p) # new1"]) (simp add: o1 ps)
  next
    case True
    with rest have "servedPages w qid (NextToken p) ps" by simp
    from Cons.IH [OF this len, of "?s0 @ new1"] obtain new2 where
      r: "fetchResults n w qid t cols (NextToken p) (?s0 @ new1) = Some (Returned, (?s0 @ new1) @ new2)"
      and pg: "map snd (pagesFetched new2) = ps"
      and st: "insertStatements new2 = map (batchQuery (DB_SCHEMA w) t cols) (batchesHanded new2)"
      by blast
    have "fetchResults (Suc n) w qid t cols tok s =
        Some (Returned, s @ GetQueryResultsSent qid tok (Inr p) # new1 @ new2)"
      using True r by (simp add: g b)
    then show ?thesis
      unfolding fuel
      by (intro exI [of _ "GetQueryResultsSent qid tok (Inr p) # new1 @ new2"]) (simp add: o1 pg st)
  qed
qed

lemma pollExecution_succeeded:
  assumes "\<forall>j<k. pending w qid j" "getQueryExecution w qid k = Inr r" "State r = ''SUCCEEDED''"
    and "i \<le> k" "k - i < n"
  shows "pollExecution pages n w qid t cols i s =
     fetchResults pages w qid t cols None
       (s @ pendingPolls w qid i k @ [GetQueryExecutionSent qid (Inr r), ConsoleLog QuerySucceeded])"
  using assms(4,5)
proof (induction n arbitrary: i s)
  case 0
  then show ?case by simp
next
  case (Suc n)
  show ?case
  proof (cases "i = k")
    case True
    then show ?thesis by (simp add: assms(2,3))
  next
    case False
    with Suc.prems have lt: "i < k" by simp
    with assms(1) have "pending w qid i" by simp
    then obtain ri where ri: "getQueryExecution w qid i = Inr ri"
      "State ri \<noteq> ''FAILED''" "State ri \<noteq> ''SUCCEEDED''"
      by (auto simp: pending_def split: sum.splits)
    have "pollExecution pages n w qid t cols (Suc i) (s @ [GetQueryExecutionSent qid (Inr ri), SetTimeout 5000]) =
      fetchResults pages w qid t cols None
       ((s @ [GetQueryExecutionSent qid (Inr ri), SetTimeout 5000]) @ pendingPolls w qid (Suc i) k @
          [GetQueryExecutionSent qid (Inr r), ConsoleLog QuerySucceeded])"
      using lt Suc.prems by (intro Suc.IH) simp_all
    then show ?thesis
      using ri by (simp add: pendingPolls_step [OF lt] Let_def)
  qed
qed

lemma queryAthena_succeeded:
  assumes "startQueryExecution w (queryString cols ath) = Inr qid"
    and "\<forall>j<k. pending w qid j" "getQueryExecution w qid k = Inr r" "State r = ''SUCCEEDED''"
    and "k < fuel"
    and "servedPages w qid None pages" "length pages \<le> fuel" "\<And>h. poolConnect w h = Inr ()"
  shows "\<exists>new. queryAthena fuel w ath pg cols s = Some (Returned, s @ new) \<and>
           map snd (pagesFetched new) = pages \<and>
           insertStatements new = map (batchQuery (DB_SCHEMA w) pg cols) (batchesHanded new)"
proof -
  let ?s0 = "s @ [ConsoleLog (QueryingAthena ath), StartQueryExecutionSent (queryString cols ath) (Inr qid)]"
  let ?s1 = "?s0 @ pendingPolls w qid 0 k @ [GetQueryExecutionSent qid (Inr r), ConsoleLog QuerySucceeded]"
  have p: "pollExecution fuel fuel w qid pg cols 0 ?s0 = fetchResults fuel w qid pg cols None ?s1"
    using assms(5) by (intro pollExecution_succeeded [OF assms(2,3,4)]) simp_all
  from fetchResults_served [OF assms(6,7,8), of pg cols ?s1] obtain new where
    f: "fetchResults fuel w qid pg cols None ?s1 = Some (Returned, ?s1 @ new)"
    and pg: "map snd (pagesFetched new) = pages"
    and st: "insertStatements new = map (batchQuery (DB_SCHEMA w) pg cols) (batchesHanded new)"
    by blast
  have q: "queryAthena fuel w ath pg cols s = Some (Returned, ?s1 @ new @ [ConsoleLog (FinishedQuerying ath)])"
    using f p by (simp add: queryAthena_def assms(1))
  show ?thesis
    by (rule exI [of _ "[ConsoleLog (QueryingAthena ath),
          StartQueryExecutionSent (queryString cols ath) (Inr qid)] @
          pendingPolls w qid 0 k @ [GetQueryExecutionSent qid (Inr r), ConsoleLog QuerySucceeded] @
          new @ [ConsoleLog (FinishedQuerying ath)]"])
      (simp add: q pg st pendingPolls_observed)
qed

lemma observed_batches:
  assumes "batchesHanded new = map (\<lambda>(tk, r). pageRows tk r) (pagesFetched new)"
    and "case pagesFetched new of [] \<Rightarrow> True
         | p # ps \<Rightarrow> fst p = None \<and> list_all (\<lambda>p. truthy (fst p)) ps"
    and "map snd (pagesFetched new) = pages" "pages \<noteq> []"
  shows "batchesHanded new = drop 1 (allRows (hd pages)) # map allRows (tl pages)"
proof -
  from assms(3,4) obtain q later where c: "pagesFetched new = q # later"
    by (cases "pagesFetched new") auto
  obtain tok first where q: "q = (tok, first)" by (cases q)
  from assms(2) c q have tok: "tok = None" and later: "list_all (\<lambda>p. truthy (fst p)) later"
    by simp_all
  have "map (\<lambda>(tk, r). pageRows tk r) later = map (\<lambda>p. allRows (snd p)) later"
    using later by (induction later) (auto simp: pageRows_eq)
  with assms(1) c q tok
  have "batchesHanded new = drop 1 (allRows first) # map (\<lambda>p. allRows (snd p)) later"
    by (simp add: pageRows_eq truthy_def)
  moreover from assms(3) c q have "pages = first # map snd later" by auto
  ultimately show ?thesis by (simp add: comp_def)
qed

lemma servedPages_nonempty: "servedPages w qid tok pages \<Longrightarrow> pages \<noteq> []"
  by (cases pages) simp_all

lemma fetchResults_served_first:
  assumes "servedPages w qid None pages" "length pages \<le> fuel" "\<And>h. poolConnect w h = Inr ()"
  shows "\<exists>new. fetchResults fuel w qid t cols None s = Some (Returned, s @ new) \<and>
           map snd (pagesFetched new) = pages \<and>
           batchesHanded new = drop 1 (allRows (hd pages)) # map allRows (tl pages) \<and>
           insertStatements new = map (batchQuery (DB_SCHEMA w) t cols) (batchesHanded new)"
proof -
  from fetchResults_served [OF assms, of t cols s] obtain new where
    f: "fetchResults fuel w qid t cols None s = Some (Returned, s @ new)"
    and pg: "map snd (pagesFetched new) = pages"
    and st: "insertStatements new = map (batchQuery (DB_SCHEMA w) t cols) (batchesHanded new)"
    by blast
  from fetchResults_observed [OF f] have
    "batchesHanded new = map (\<lambda>(tk, r). pageRows tk r) (pagesFetched new)"
    "case pagesFetched new of [] \<Rightarrow> True
         | p # ps \<Rightarrow> fst p = None \<and> list_all (\<lambda>p. truthy (fst p)) ps"
    by auto
  from observed_batches [OF this pg servedPages_nonempty [OF assms(1)]] f pg st
  show ?thesis by blast
qed

lemma queryAthena_succeeded_first:
  assumes "startQueryExecution w (queryString cols ath) = Inr qid"
    and "\<forall>j<k. pending w qid j" "getQueryExecution w qid k = Inr r" "State r = ''SUCCEEDED''"
    and "k < fuel"
    and "servedPages w qid None pages" "length pages \<le> fuel" "\<And>h. poolConnect w h = Inr ()"
  shows "\<exists>new. queryAthena fuel w ath pg cols s = Some (Returned, s @ new) \<and>
           map snd (pagesFetched new) = pages \<and>
           batchesHanded new = drop 1 (allRows (hd pages)) # map allRows (tl pages) \<and>
           insertStatements new = map (batchQuery (DB_SCHEMA w) pg cols) (batchesHanded new)"
proof -
  let ?s0 = "s @ [ConsoleLog (QueryingAthena ath), StartQueryExecutionSent (queryString cols ath) (Inr qid)]"
  let ?s1 = "?s0 @ pendingPolls w qid 0 k @ [GetQueryExecutionSent qid (Inr r), ConsoleLog QuerySucceeded]"
  have p: "pollExecution fuel fuel w qid pg cols 0 ?s0 = fetchResults fuel w qid pg cols None ?s1"
    using assms(5) by (intro pollExecution_succeeded [OF assms(2,3,4)]) simp_all
  from fetchResults_served_first [OF assms(6,7,8), of pg cols ?s1] obtain new where
    f: "fetchResults fuel w qid pg cols None ?s1 = Some (Returned, ?s1 @ new)"
    and pg: "map snd (pagesFetched new) = pages"
    and bh: "batchesHanded new = drop 1 (allRows (hd pages)) # map allRows (tl pages)"
    and st: "insertStatements new = map (batchQuery (DB_SCHEMA w) pg cols) (batchesHanded new)"
    by blast
  have q: "queryAthena fuel w ath pg cols s = Some (Returned, ?s1 @ new @ [ConsoleLog (FinishedQuerying ath)])"
    using f p by (simp add: queryAthena_def assms(1))
  show ?thesis
    by (rule exI [of _ "[ConsoleLog (QueryingAthena ath),
          StartQueryExecutionSent (queryString cols ath) (Inr qid)] @
          pendingPolls w qid 0 k @ [GetQueryExecutionSent qid (Inr r), ConsoleLog QuerySucceeded] @
          new @ [ConsoleLog (FinishedQuerying ath)]"])
      (simp add: q pg st bh pendingPolls_observed)
qed

lemma refusal_stops:
  assumes "endsAs out new" "PoolConnectCalled (Inl e) \<in> set new"
  shows "out = Thrown e \<and> last new = PoolConnectCalled (Inl e)"
proof -
  from assms(2) have "list_ex escaped new"
    by (auto simp: list_ex_iff intro: bexI [of _ "PoolConnectCalled (Inl e)"])
  with endsAs_escaped [OF assms(1)] obtain e' where o: "out = Thrown e'"
    by (cases out) simp_all
  with assms(1) obtain before ev where
    n: "new = before @ [ev]" and r: "raised ev = Some e'" and b: "\<not> list_ex escaped before"
    by (auto simp: stopsWith_split)
  from b have "PoolConnectCalled (Inl e) \<notin> set before"
    by (auto simp: list_ex_iff)
  with assms(2) n have "ev = PoolConnectCalled (Inl e)" by simp
  with r o n show ?thesis by simp
qed

text \<open>
  C9 as stated does not hold when the database rejects the batch by refusing the
  connection. The pool hands out no client: the exception of \<open>pgPool.connect()\<close>
  leaves the loader at the first batch of the first table; the second page of that
  table is never fetched, the second table is never queried, and the process ends
  with the exit code 1.
\<close>

theorem refused_connection_counterexample:
  "main 3 refusingWorld =
     Some (1,
       [GetTableMetadataSent ''glue_table1'' (Inr [\<lparr>Name = ''id''\<rparr>, \<lparr>Name = ''name''\<rparr>]),
        GetTableMetadataSent ''glue_table2'' (Inr [\<lparr>Name = ''id''\<rparr>]),
        ConsoleLog (QueryingAthena ''glue_table1''),
        StartQueryExecutionSent ''SELECT id, name FROM glue_table1'' (Inr ''q1''),
        GetQueryExecutionSent ''q1'' (Inr \<lparr>State = ''RUNNING'', StateChangeReason = None\<rparr>),
        SetTimeout 5000,
        GetQueryExecutionSent ''q1'' (Inr \<lparr>State = ''RUNNING'', StateChangeReason = None\<rparr>),
        SetTimeout 5000,
        GetQueryExecutionSent ''q1'' (Inr \<lparr>State = ''SUCCEEDED'', StateChangeReason = None\<rparr>),
        ConsoleLog QuerySucceeded,
        GetQueryResultsSent ''q1'' None (Inr page1),
        InsertBatchCalled ''able1'' [''id'', ''name'']
          [[Some ''1'', Some ''alice''], [Some ''2'', Some ''bob'']],
        ConsoleLog (NumberOfRows ''able1'' 2),
        PoolConnectCalled (Inl (Error ''timeout exceeded when trying to connect''))])"
  by (simp add: main_eval run_eval worlds_eval)

text \<open>
  C9 (as amended): when the database rejects the statement of a batch
  (\<open>client.query\<close> throws), \<open>insertIntoPostgresAsBatch\<close> catches the error, logs it
  with the table name, releases the client and returns; the statement was sent once,
  for the whole batch. So, as long as the pool hands out a client for every batch,
  the paging loop returns having fetched every page that the service holds, handed
  each to the loader and sent one statement for each, whatever the database answered
  to the statements; \<open>queryAthena\<close> returns, and the loop over the tables goes on
  with the following tables. A connection that the pool refuses
  (\<open>pgPool.connect()\<close> throws) is not caught: the call of the loader throws, the
  refusal is the last event of the table, and the loop over the tables ends there
  with this exception.
\<close>

theorem rejected_batch_does_not_stop_the_run:
  fixes t :: tableEntry
  shows
  "(\<forall>c e.
      poolConnect w (s @ [InsertBatchCalled pg cols rows, ConsoleLog (NumberOfRows pg (length rows))]) = Inr c \<and>
      clientQuery w (s @ [InsertBatchCalled pg cols rows, ConsoleLog (NumberOfRows pg (length rows)),
                          PoolConnectCalled (Inr c)])
        (batchQuery (DB_SCHEMA w) pg cols rows) (batchValues rows) = Inl e \<longrightarrow>
      insertIntoPostgresAsBatch w pg cols rows s =
        (Returned,
         s @ [InsertBatchCalled pg cols rows, ConsoleLog (NumberOfRows pg (length rows)),
              PoolConnectCalled (Inr c),
              ClientQueryCalled (batchQuery (DB_SCHEMA w) pg cols rows) (batchValues rows) (Inl e),
              ConsoleLog (InsertError (Some pg) e), ClientRelease])) \<and>
   (\<forall>e.
      poolConnect w (s @ [InsertBatchCalled pg cols rows, ConsoleLog (NumberOfRows pg (length rows))]) = Inl e \<longrightarrow>
      insertIntoPostgresAsBatch w pg cols rows s =
        (Thrown e,
         s @ [InsertBatchCalled pg cols rows, ConsoleLog (NumberOfRows pg (length rows)),
              PoolConnectCalled (Inl e)])) \<and>
   (\<forall>pages.
      servedPages w qid None pages \<and> length pages \<le> fuel \<and> (\<forall>h. poolConnect w h = Inr ()) \<longrightarrow>
      (\<exists>new. fetchResults fuel w qid pg cols None s = Some (Returned, s @ new) \<and>
         map snd (pagesFetched new) = pages \<and>
         batchesHanded new = drop 1 (allRows (hd pages)) # map allRows (tl pages) \<and>
         insertStatements new = map (batchQuery (DB_SCHEMA w) pg cols) (batchesHanded new))) \<and>
   (\<forall>x k r pages.
      startQueryExecution w (queryString (columns t) (athName t)) = Inr x \<and>
      (\<forall>j<k. pending w x j) \<and> getQueryExecution w x k = Inr r \<and> State r = ''SUCCEEDED'' \<and>
      k < fuel \<and> servedPages w x None pages \<and> length pages \<le> fuel \<and>
      (\<forall>h. poolConnect w h = Inr ()) \<longrightarrow>
      (\<exists>new. queryAthena fuel w (athName t) (pgName t) (columns t) s = Some (Returned, s @ new) \<and>
         map snd (pagesFetched new) = pages \<and>
         batchesHanded new = drop 1 (allRows (hd pages)) # map allRows (tl pages) \<and>
         insertStatements new =
           map (batchQuery (DB_SCHEMA w) (pgName t) (columns t)) (batchesHanded new) \<and>
         forTables fuel w (t # ts) s = forTables fuel w ts (s @ new))) \<and>
   (\<forall>out s'.
      queryAthena fuel w (athName t) (pgName t) (columns t) s = Some (out, s') \<longrightarrow>
      (\<exists>new. s' = s @ new \<and>
         (\<forall>e. PoolConnectCalled (Inl e) \<in> set new \<longrightarrow>
            out = Thrown e \<and> last new = PoolConnectCalled (Inl e) \<and>
            forTables fuel w (t # ts) s = Some (Thrown e, s'))))"
proof (intro conjI allI impI)
  fix c e
  assume "poolConnect w (s @ [InsertBatchCalled pg cols rows, ConsoleLog (NumberOfRows pg (length rows))]) = Inr c \<and>
      clientQuery w (s @ [InsertBatchCalled pg cols rows, ConsoleLog (NumberOfRows pg (length rows)),
                          PoolConnectCalled (Inr c)])
        (batchQuery (DB_SCHEMA w) pg cols rows) (batchValues rows) = Inl e"
  then show "insertIntoPostgresAsBatch w pg cols rows s =
        (Returned,
         s @ [InsertBatchCalled pg cols rows, ConsoleLog (NumberOfRows pg (length rows)),
              PoolConnectCalled (Inr c),
              ClientQueryCalled (batchQuery (DB_SCHEMA w) pg cols rows) (batchValues rows) (Inl e),
              ConsoleLog (InsertError (Some pg) e), ClientRelease])"
    by (simp add: insertIntoPostgresAsBatch_def Let_def)
next
  fix e
  assume "poolConnect w (s @ [InsertBatchCalled pg cols rows, ConsoleLog (NumberOfRows pg (length rows))]) = Inl e"
  then show "insertIntoPostgresAsBatch w pg cols rows s =
        (Thrown e,
         s @ [InsertBatchCalled pg cols rows, ConsoleLog (NumberOfRows pg (length rows)),
              PoolConnectCalled (Inl e)])"
    by (rule insertIntoPostgresAsBatch_refused)
next
  fix pages
  assume "servedPages w qid None pages \<and> length pages \<le> fuel \<and> (\<forall>h. poolConnect w h = Inr ())"
  then show "\<exists>new. fetchResults fuel w qid pg cols None s = Some (Returned, s @ new) \<and>
         map snd (pagesFetched new) = pages \<and>
         batchesHanded new = drop 1 (allRows (hd pages)) # map allRows (tl pages) \<and>
         insertStatements new = map (batchQuery (DB_SCHEMA w) pg cols) (batchesHanded new)"
    by (intro fetchResults_served_first) simp_all
next
  fix x k r pages
  assume a: "startQueryExecution w (queryString (columns t) (athName t)) = Inr x \<and>
      (\<forall>j<k. pending w x j) \<and> getQueryExecution w x k = Inr r \<and> State r = ''SUCCEEDED'' \<and>
      k < fuel \<and> servedPages w x None pages \<and> length pages \<le> fuel \<and>
      (\<forall>h. poolConnect w h = Inr ())"
  then have "\<exists>new. queryAthena fuel w (athName t) (pgName t) (columns t) s = Some (Returned, s @ new) \<and>
         map snd (pagesFetched new) = pages \<and>
         batchesHanded new = drop 1 (allRows (hd pages)) # map allRows (tl pages) \<and>
         insertStatements new =
           map (batchQuery (DB_SCHEMA w) (pgName t) (columns t)) (batchesHanded new)"
    by (intro queryAthena_succeeded_first [where k = k and r = r and qid = x]) simp_all
  then obtain new where
    q: "queryAthena fuel w (athName t) (pgName t) (columns t) s = Some (Returned, s @ new)"
    and r: "map snd (pagesFetched new) = pages"
      "batchesHanded new = drop 1 (allRows (hd pages)) # map allRows (tl pages)"
      "insertStatements new =
           map (batchQuery (DB_SCHEMA w) (pgName t) (columns t)) (batchesHanded new)"
    by (elim exE conjE) (rule that)
  have "forTables fuel w (t # ts) s = forTables fuel w ts (s @ new)"
    by (simp add: q)
  with q r show "\<exists>new. queryAthena fuel w (athName t) (pgName t) (columns t) s = Some (Returned, s @ new) \<and>
         map snd (pagesFetched new) = pages \<and>
         batchesHanded new = drop 1 (allRows (hd pages)) # map allRows (tl pages) \<and>
         insertStatements new =
           map (batchQuery (DB_SCHEMA w) (pgName t) (columns t)) (batchesHanded new) \<and>
         forTables fuel w (t # ts) s = forTables fuel w ts (s @ new)"
    by (intro exI [of _ new] conjI)
next
  fix out s'
  assume q: "queryAthena fuel w (athName t) (pgName t) (columns t) s = Some (out, s')"
  from queryAthena_ends [OF q] obtain new where n: "s' = s @ new" and e: "endsAs out new"
    by blast
  have "out = Thrown x \<and> last new = PoolConnectCalled (Inl x) \<and>
        forTables fuel w (t # ts) s = Some (Thrown x, s')"
    if "PoolConnectCalled (Inl x) \<in> set new" for x
  proof -
    from refusal_stops [OF e that] have o: "out = Thrown x" and l: "last new = PoolConnectCalled (Inl x)"
      by simp_all
    from q o have "forTables fuel w (t # ts) s = Some (Thrown x, s')" by simp
    with o l show ?thesis by simp
  qed
  with n show "\<exists>new. s' = s @ new \<and>
         (\<forall>e. PoolConnectCalled (Inl e) \<in> set new \<longrightarrow>
            out = Thrown e \<and> last new = PoolConnectCalled (Inl e) \<and>
            forTables fuel w (t # ts) s = Some (Thrown e, s'))"
    by (intro exI [of _ new]) simp
qed

theorem rejected_batch_does_not_stop_the_run_witness:
  "(\<forall>h. poolConnect rejectingWorld h = Inr ()) \<and>
   servedPages rejectingWorld ''q1'' None [page1, page2] \<and>
   insertIntoPostgresAsBatch rejectingWorld ''able1'' [''id''] [[Some ''1'']] [] =
     (Returned,
      [InsertBatchCalled ''able1'' [''id''] [[Some ''1'']], ConsoleLog (NumberOfRows ''able1'' 1),
       PoolConnectCalled (Inr ()),
       ClientQueryCalled ''INSERT INTO public.able1 (id) VALUES ($1)'' [Some ''1'']
         (Inl (Error ''duplicate key value'')),
       ConsoleLog (InsertError (Some ''able1'') (Error ''duplicate key value'')), ClientRelease]) \<and>
   insertIntoPostgresAsBatch refusingWorld ''able1'' [''id''] [[Some ''1'']] [] =
     (Thrown (Error ''timeout exceeded when trying to connect''),
      [InsertBatchCalled ''able1'' [''id''] [[Some ''1'']], ConsoleLog (NumberOfRows ''able1'' 1),
       PoolConnectCalled (Inl (Error ''timeout exceeded when trying to connect''))]) \<and>
   (\<exists>new. fetchResults 2 rejectingWorld ''q1'' ''able1'' [''id'', ''name''] None [] =
             Some (Returned, new) \<and>
      map snd (pagesFetched new) = [page1, page2] \<and>
      insertStatements new =
        [''INSERT INTO public.able1 (id, name) VALUES ($1, $2), ($3, $4)'',
         ''INSERT INTO public.able1 (id, name) VALUES ($1, $2)'']) \<and>
   (\<exists>new. queryAthena 3 rejectingWorld ''glue_table1'' ''able1'' [''id'', ''name''] [] =
             Some (Returned, new) \<and>
      map snd (pagesFetched new) = [page1, page2] \<and>
      forTables 3 rejectingWorld
        [\<lparr>athName = ''glue_table1'', pgName = ''able1'', columns = [''id'', ''name'']\<rparr>,
         \<lparr>athName = ''glue_table2'', pgName = ''able2'', columns = [''id'']\<rparr>] [] =
      forTables 3 rejectingWorld
        [\<lparr>athName = ''glue_table2'', pgName = ''able2'', columns = [''id'']\<rparr>] new) \<and>
   (\<exists>s'. forTables 3 refusingWorld
        [\<lparr>athName = ''glue_table1'', pgName = ''able1'', columns = [''id'', ''name'']\<rparr>,
         \<lparr>athName = ''glue_table2'', pgName = ''able2'', columns = [''id'']\<rparr>] [] =
        Some (Thrown (Error ''timeout exceeded when trying to connect''), s') \<and>
      last s' = PoolConnectCalled (Inl (Error ''timeout exceeded when trying to connect'')))"
proof -
  let ?t1 = "\<lparr>athName = ''glue_table1'', pgName = ''able1'', columns = [''id'', ''name'']\<rparr>"
  let ?t2 = "\<lparr>athName = ''glue_table2'', pgName = ''able2'', columns = [''id'']\<rparr>"
  let ?e = "Error ''timeout exceeded when trying to connect''"
  have c1: "\<forall>h. poolConnect rejectingWorld h = Inr ()"
    by (simp add: worlds_eval)
  have sp: "servedPages rejectingWorld ''q1'' None [page1, page2]"
    by (simp add: exampleWorld_sel rejectingWorld_sel truthy_def page_tokens)
  have a: "insertIntoPostgresAsBatch rejectingWorld ''able1'' [''id''] [[Some ''1'']] [] =
     (Returned,
      [InsertBatchCalled ''able1'' [''id''] [[Some ''1'']], ConsoleLog (NumberOfRows ''able1'' 1),
       PoolConnectCalled (Inr ()),
       ClientQueryCalled ''INSERT INTO public.able1 (id) VALUES ($1)'' [Some ''1'']
         (Inl (Error ''duplicate key value'')),
       ConsoleLog (InsertError (Some ''able1'') (Error ''duplicate key value'')), ClientRelease])"
    using rejected_batch_does_not_stop_the_run [where w = rejectingWorld and s = "[]"
        and pg = "''able1''" and cols = "[''id'']" and rows = "[[Some ''1'']]" and t = ?t1,
        THEN conjunct1, rule_format, of "()" "Error ''duplicate key value''"]
    by (simp add: rejectingWorld_sel run_eval)
  have a2: "insertIntoPostgresAsBatch refusingWorld ''able1'' [''id''] [[Some ''1'']] [] =
     (Thrown ?e,
      [InsertBatchCalled ''able1'' [''id''] [[Some ''1'']], ConsoleLog (NumberOfRows ''able1'' 1),
       PoolConnectCalled (Inl ?e)])"
    using rejected_batch_does_not_stop_the_run [where w = refusingWorld and s = "[]"
        and pg = "''able1''" and cols = "[''id'']" and rows = "[[Some ''1'']]" and t = ?t1,
        THEN conjunct2, THEN conjunct1, rule_format, of ?e]
    by (simp add: refusingWorld_sel)
  have h3: "servedPages rejectingWorld ''q1'' None [page1, page2] \<and> length [page1, page2] \<le> 2 \<and>
      (\<forall>h. poolConnect rejectingWorld h = Inr ())"
    by (intro conjI, fact sp, simp, fact c1)
  from rejected_batch_does_not_stop_the_run [where w = rejectingWorld and s = "[]"
        and pg = "''able1''" and cols = "[''id'', ''name'']" and qid = "''q1''" and fuel = 2 and t = ?t1,
        THEN conjunct2, THEN conjunct2, THEN conjunct1, rule_format, OF h3]
  obtain new3 where
    f: "fetchResults 2 rejectingWorld ''q1'' ''able1'' [''id'', ''name''] None [] = Some (Returned, [] @ new3)"
    and pg3: "map snd (pagesFetched new3) = [page1, page2]"
    and bh3: "batchesHanded new3 = drop 1 (allRows (hd [page1, page2])) # map allRows (tl [page1, page2])"
    and st3: "insertStatements new3 =
        map (batchQuery (DB_SCHEMA rejectingWorld) ''able1'' [''id'', ''name'']) (batchesHanded new3)"
    by (elim exE conjE) (rule that)
  have st3': "insertStatements new3 =
        [''INSERT INTO public.able1 (id, name) VALUES ($1, $2), ($3, $4)'',
         ''INSERT INTO public.able1 (id, name) VALUES ($1, $2)'']"
    unfolding st3 bh3 by (simp add: allRows_def run_eval worlds_eval)
  have b: "\<exists>new. fetchResults 2 rejectingWorld ''q1'' ''able1'' [''id'', ''name''] None [] =
             Some (Returned, new) \<and>
      map snd (pagesFetched new) = [page1, page2] \<and>
      insertStatements new =
        [''INSERT INTO public.able1 (id, name) VALUES ($1, $2), ($3, $4)'',
         ''INSERT INTO public.able1 (id, name) VALUES ($1, $2)'']"
    using f pg3 st3' by (intro exI [of _ new3]) simp
  have p: "\<forall>j<2. pending rejectingWorld ''q1'' j"
    by (simp add: pending_def worlds_eval less_Suc_eq numeral_2_eq_2)
  have h4: "startQueryExecution rejectingWorld (queryString (columns ?t1) (athName ?t1)) = Inr ''q1'' \<and>
      (\<forall>j<2. pending rejectingWorld ''q1'' j) \<and>
      getQueryExecution rejectingWorld ''q1'' 2 = Inr \<lparr>State = ''SUCCEEDED'', StateChangeReason = None\<rparr> \<and>
      State \<lparr>State = ''SUCCEEDED'', StateChangeReason = None\<rparr> = ''SUCCEEDED'' \<and>
      (2::nat) < 3 \<and> servedPages rejectingWorld ''q1'' None [page1, page2] \<and>
      length [page1, page2] \<le> 3 \<and> (\<forall>h. poolConnect rejectingWorld h = Inr ())"
    by (intro conjI, simp add: queryString_def worlds_eval, fact p,
        simp add: worlds_eval numeral_2_eq_2, simp, simp, fact sp, simp, fact c1)
  from rejected_batch_does_not_stop_the_run [where w = rejectingWorld and s = "[]"
        and fuel = 3 and t = ?t1 and ts = "[?t2]",
        THEN conjunct2, THEN conjunct2, THEN conjunct2, THEN conjunct1, rule_format, OF h4]
  obtain new4 where
    q4: "queryAthena 3 rejectingWorld (athName ?t1) (pgName ?t1) (columns ?t1) [] = Some (Returned, [] @ new4)"
    and pg4: "map snd (pagesFetched new4) = [page1, page2]"
    and ft4: "forTables 3 rejectingWorld [?t1, ?t2] [] = forTables 3 rejectingWorld [?t2] ([] @ new4)"
    by (elim exE conjE) (rule that)
  have c: "\<exists>new. queryAthena 3 rejectingWorld ''glue_table1'' ''able1'' [''id'', ''name''] [] =
             Some (Returned, new) \<and>
      map snd (pagesFetched new) = [page1, page2] \<and>
      forTables 3 rejectingWorld [?t1, ?t2] [] = forTables 3 rejectingWorld [?t2] new"
    using q4 pg4 ft4 by (intro exI [of _ new4]) simp
  define s5 where "s5 =
       [ConsoleLog (QueryingAthena ''glue_table1''),
        StartQueryExecutionSent ''SELECT id, name FROM glue_table1'' (Inr ''q1''),
        GetQueryExecutionSent ''q1'' (Inr \<lparr>State = ''RUNNING'', StateChangeReason = None\<rparr>),
        SetTimeout 5000,
        GetQueryExecutionSent ''q1'' (Inr \<lparr>State = ''RUNNING'', StateChangeReason = None\<rparr>),
        SetTimeout 5000,
        GetQueryExecutionSent ''q1'' (Inr \<lparr>State = ''SUCCEEDED'', StateChangeReason = None\<rparr>),
        ConsoleLog QuerySucceeded,
        GetQueryResultsSent ''q1'' None (Inr page1),
        InsertBatchCalled ''able1'' [''id'', ''name'']
          [[Some ''1'', Some ''alice''], [Some ''2'', Some ''bob'']],
        ConsoleLog (NumberOfRows ''able1'' 2),
        PoolConnectCalled (Inl ?e)]"
  have q5: "queryAthena 3 refusingWorld (athName ?t1) (pgName ?t1) (columns ?t1) [] = Some (Thrown ?e, s5)"
    unfolding s5_def by (simp add: run_eval worlds_eval)
  from rejected_batch_does_not_stop_the_run [where w = refusingWorld and s = "[]"
        and fuel = 3 and t = ?t1 and ts = "[?t2]",
        THEN conjunct2, THEN conjunct2, THEN conjunct2, THEN conjunct2, rule_format, OF q5]
  obtain new5 where n5: "s5 = [] @ new5"
    and r5: "\<forall>e. PoolConnectCalled (Inl e) \<in> set new5 \<longrightarrow>
            Thrown ?e = Thrown e \<and> last new5 = PoolConnectCalled (Inl e) \<and>
            forTables 3 refusingWorld [?t1, ?t2] [] = Some (Thrown e, s5)"
    by (elim exE conjE) (rule that)
  from n5 have n5': "new5 = s5" by simp
  have "PoolConnectCalled (Inl ?e) \<in> set new5"
    unfolding n5' s5_def by simp
  note r5' = r5 [rule_format, OF this]
  note l5 = r5' [THEN conjunct2, THEN conjunct1]
  note f5 = r5' [THEN conjunct2, THEN conjunct2]
  from l5 have l5': "last s5 = PoolConnectCalled (Inl ?e)"
    unfolding n5' .
  have d: "\<exists>s'. forTables 3 refusingWorld [?t1, ?t2] [] = Some (Thrown ?e, s') \<and>
      last s' = PoolConnectCalled (Inl ?e)"
    by (rule exI [of _ s5], rule conjI, fact f5, fact l5')
  show ?thesis
    by (intro conjI, fact c1, fact sp, fact a, fact a2, fact b, fact c, fact d)
qed

subsection \<open>An exception while a table is processed\<close>

text \<open>
  C7 as stated does not hold. Athena rejects the query of the first of two tables:
  the run ends there with exit code 1, and the second table is never queried.
\<close>

theorem submission_error_counterexample:
  "main 3 deniedWorld =
     Some (1,
       [GetTableMetadataSent ''glue_table1'' (Inr [\<lparr>Name = ''id''\<rparr>, \<lparr>Name = ''name''\<rparr>]),
        GetTableMetadataSent ''glue_table2'' (Inr [\<lparr>Name = ''id''\<rparr>]),
        ConsoleLog (QueryingAthena ''glue_table1''),
        StartQueryExecutionSent ''SELECT id, name FROM glue_table1''
          (Inl (Error ''AccessDeniedException''))])"
  by (simp add: main_eval run_eval worlds_eval)

lemma queryAthena_rejected:
  assumes "startQueryExecution w (queryString cols ath) = Inl e"
  shows "queryAthena fuel w ath pg cols s =
     Some (Thrown e, s @ [ConsoleLog (QueryingAthena ath),
                          StartQueryExecutionSent (queryString cols ath) (Inl e)])"
  using assms by (simp add: queryAthena_def)

lemma poolErrorHandler_exited: "list_ex exited (poolErrorHandler e h)"
  by (simp add: poolErrorHandler_def)

lemma main_thrown:
  assumes "insertTablesInOrder fuel w [] = Some (Thrown e, s)"
  shows "\<exists>code h. main fuel w = Some (code, h) \<and> (code = 1 \<and> h = s \<or> code = 255 \<and> list_ex exited h)"
proof (cases "interrupted w [] s")
  case None
  then show ?thesis
    by (simp add: main_ended [OF assms])
next
  case (Some r)
  obtain h1 e1 where "r = (h1, e1)" by (cases r)
  with Some show ?thesis
    by (simp add: main_ended [OF assms] poolErrorHandler_exited)
qed

text \<open>
  C7 (as amended): an exception raised while a table is processed is caught at no
  boundary.
  \<^item> \<open>queryAthena\<close> returns exactly when none of its requests to Athena (submission,
    status poll, page fetch) and no \<open>pgPool.connect()\<close> raised; when one raises, that
    call is the last event of the table and its exception leaves \<open>queryAthena\<close>. In
    particular a submission that Athena rejects ends the call right there.
  \<^item> The exception leaves the loop over the tables: the tables after it are not
    processed, and it leaves \<open>insertTablesInOrder\<close>.
  \<^item> The process then ends with a code that is not 0: with 1, or with 255 when the
    pool's \<open>error\<close> handler has ended it before.
\<close>

theorem exception_aborts_the_run:
  fixes t :: tableEntry
  shows
  "(\<forall>e. startQueryExecution w (queryString (columns t) (athName t)) = Inl e \<longrightarrow>
      queryAthena fuel w (athName t) (pgName t) (columns t) s1 =
        Some (Thrown e,
          s1 @ [ConsoleLog (QueryingAthena (athName t)),
                StartQueryExecutionSent (queryString (columns t) (athName t)) (Inl e)])) \<and>
   (\<forall>out s2. queryAthena fuel w (athName t) (pgName t) (columns t) s1 = Some (out, s2) \<longrightarrow>
      (\<exists>new. s2 = s1 @ new \<and>
         (out = Returned \<longleftrightarrow> \<not> list_ex escaped new) \<and>
         (\<forall>e. out = Thrown e \<longrightarrow>
            new \<noteq> [] \<and> raised (last new) = Some e \<and> \<not> list_ex escaped (butlast new)))) \<and>
   (\<forall>e s2. forTables fuel w before s = Some (Returned, s1) \<and>
      queryAthena fuel w (athName t) (pgName t) (columns t) s1 = Some (Thrown e, s2) \<longrightarrow>
      forTables fuel w (before @ t # after) s = Some (Thrown e, s2)) \<and>
   (\<forall>tables e s2. promiseAll (lookups w) = Inr tables \<and>
      forTables fuel w tables (s @ metadataEvents w) = Some (Thrown e, s2) \<longrightarrow>
      insertTablesInOrder fuel w s = Some (Thrown e, s2)) \<and>
   (\<forall>e s2. insertTablesInOrder fuel w [] = Some (Thrown e, s2) \<longrightarrow>
      (\<exists>code h. main fuel w = Some (code, h) \<and>
         (code = 1 \<and> h = s2 \<or> code = 255 \<and> list_ex exited h)))"
proof (intro conjI allI impI)
  fix e
  assume "startQueryExecution w (queryString (columns t) (athName t)) = Inl e"
  then show "queryAthena fuel w (athName t) (pgName t) (columns t) s1 =
        Some (Thrown e,
          s1 @ [ConsoleLog (QueryingAthena (athName t)),
                StartQueryExecutionSent (queryString (columns t) (athName t)) (Inl e)])"
    by (rule queryAthena_rejected)
next
  fix out s2
  assume "queryAthena fuel w (athName t) (pgName t) (columns t) s1 = Some (out, s2)"
  from queryAthena_ends [OF this] obtain new where n: "s2 = s1 @ new" and e: "endsAs out new"
    by blast
  have a: "out = Returned \<longleftrightarrow> \<not> list_ex escaped new"
    using endsAs_escaped [OF e] by blast
  have b: "new \<noteq> [] \<and> raised (last new) = Some x \<and> \<not> list_ex escaped (butlast new)"
    if "out = Thrown x" for x
    using e that by (auto simp: stopsWith_split)
  from n a b show "\<exists>new. s2 = s1 @ new \<and>
         (out = Returned \<longleftrightarrow> \<not> list_ex escaped new) \<and>
         (\<forall>e. out = Thrown e \<longrightarrow>
            new \<noteq> [] \<and> raised (last new) = Some e \<and> \<not> list_ex escaped (butlast new))"
    by (intro exI [of _ new]) blast
next
  fix e s2
  assume "forTables fuel w before s = Some (Returned, s1) \<and>
      queryAthena fuel w (athName t) (pgName t) (columns t) s1 = Some (Thrown e, s2)"
  then show "forTables fuel w (before @ t # after) s = Some (Thrown e, s2)"
    by (simp add: forTables_append)
next
  fix tables e s2
  assume "promiseAll (lookups w) = Inr tables \<and>
      forTables fuel w tables (s @ metadataEvents w) = Some (Thrown e, s2)"
  then show "insertTablesInOrder fuel w s = Some (Thrown e, s2)"
    by (simp add: insertTablesInOrder_def Let_def)
next
  fix e s2
  assume "insertTablesInOrder fuel w [] = Some (Thrown e, s2)"
  then show "\<exists>code h. main fuel w = Some (code, h) \<and>
         (code = 1 \<and> h = s2 \<or> code = 255 \<and> list_ex exited h)"
    by (rule main_thrown)
qed

theorem exception_aborts_the_run_witness:
  "startQueryExecution deniedWorld ''SELECT id, name FROM glue_table1'' =
     Inl (Error ''AccessDeniedException'') \<and>
   queryAthena 3 deniedWorld ''glue_table1'' ''able1'' [''id'', ''name''] (metadataEvents exampleWorld) =
     Some (Thrown (Error ''AccessDeniedException''),
       metadataEvents exampleWorld @
       [ConsoleLog (QueryingAthena ''glue_table1''),
        StartQueryExecutionSent ''SELECT id, name FROM glue_table1''
          (Inl (Error ''AccessDeniedException''))]) \<and>
   raised (StartQueryExecutionSent ''SELECT id, name FROM glue_table1''
          (Inl (Error ''AccessDeniedException''))) = Some (Error ''AccessDeniedException'') \<and>
   forTables 3 deniedWorld
     [\<lparr>athName = ''glue_table1'', pgName = ''able1'', columns = [''id'', ''name'']\<rparr>,
      \<lparr>athName = ''glue_table2'', pgName = ''able2'', columns = [''id'']\<rparr>]
     (metadataEvents exampleWorld) =
     Some (Thrown (Error ''AccessDeniedException''),
       metadataEvents exampleWorld @
       [ConsoleLog (QueryingAthena ''glue_table1''),
        StartQueryExecutionSent ''SELECT id, name FROM glue_table1''
          (Inl (Error ''AccessDeniedException''))]) \<and>
   insertTablesInOrder 3 deniedWorld [] =
     Some (Thrown (Error ''AccessDeniedException''),
       metadataEvents exampleWorld @
       [ConsoleLog (QueryingAthena ''glue_table1''),
        StartQueryExecutionSent ''SELECT id, name FROM glue_table1''
          (Inl (Error ''AccessDeniedException''))]) \<and>
   (\<exists>code h. main 3 deniedWorld = Some (code, h) \<and> code \<noteq> 0)"
proof -
  let ?t1 = "\<lparr>athName = ''glue_table1'', pgName = ''able1'', columns = [''id'', ''name'']\<rparr>"
  let ?t2 = "\<lparr>athName = ''glue_table2'', pgName = ''able2'', columns = [''id'']\<rparr>"
  let ?e = "Error ''AccessDeniedException''"
  let ?m = "metadataEvents exampleWorld"
  let ?new = "[ConsoleLog (QueryingAthena ''glue_table1''),
        StartQueryExecutionSent ''SELECT id, name FROM glue_table1'' (Inl ?e)]"
  note inst = exception_aborts_the_run [where w = deniedWorld and fuel = 3 and t = ?t1
      and ?s1.0 = ?m and s = "[]" and before = "[]" and after = "[?t2]"]
  have a: "startQueryExecution deniedWorld ''SELECT id, name FROM glue_table1'' = Inl ?e"
    by (simp add: worlds_eval)
  then have a': "startQueryExecution deniedWorld (queryString (columns ?t1) (athName ?t1)) = Inl ?e"
    by (simp add: queryString_def)
  from inst [THEN conjunct1, rule_format, OF a']
  have b: "queryAthena 3 deniedWorld ''glue_table1'' ''able1'' [''id'', ''name''] ?m =
      Some (Thrown ?e, ?m @ ?new)"
    by (simp add: queryString_def)
  then have b': "queryAthena 3 deniedWorld (athName ?t1) (pgName ?t1) (columns ?t1) ?m =
      Some (Thrown ?e, ?m @ ?new)"
    by simp
  from inst [THEN conjunct2, THEN conjunct1, rule_format, OF b'] obtain new where
    n: "?m @ ?new = ?m @ new"
    and r: "\<forall>e. Thrown ?e = Thrown e \<longrightarrow>
            new \<noteq> [] \<and> raised (last new) = Some e \<and> \<not> list_ex escaped (butlast new)"
    by (elim exE conjE) (rule that)
  from n have n': "new = ?new" by simp
  from r have "raised (last new) = Some ?e" by simp
  then have c: "raised (StartQueryExecutionSent ''SELECT id, name FROM glue_table1'' (Inl ?e)) = Some ?e"
    unfolding n' by simp
  have h3: "forTables 3 deniedWorld [] [] = Some (Returned, [])" by simp
  have d0: "forTables 3 deniedWorld [] ?m = Some (Returned, ?m) \<and>
      queryAthena 3 deniedWorld (athName ?t1) (pgName ?t1) (columns ?t1) ?m = Some (Thrown ?e, ?m @ ?new)"
    by (rule conjI, simp, fact b')
  from exception_aborts_the_run [where w = deniedWorld and fuel = 3 and t = ?t1
      and ?s1.0 = ?m and s = ?m and before = "[]" and after = "[?t2]",
      THEN conjunct2, THEN conjunct2, THEN conjunct1, rule_format, OF d0]
  have d: "forTables 3 deniedWorld [?t1, ?t2] ?m = Some (Thrown ?e, ?m @ ?new)"
    by (simp only: append_Nil)
  have e0: "promiseAll (lookups deniedWorld) = Inr [?t1, ?t2] \<and>
      forTables 3 deniedWorld [?t1, ?t2] ([] @ metadataEvents deniedWorld) = Some (Thrown ?e, ?m @ ?new)"
    by (rule conjI, simp add: denied_tables example_tables, simp only: append_Nil denied_tables d)
  note e = inst [THEN conjunct2, THEN conjunct2, THEN conjunct2, THEN conjunct1, rule_format, OF e0]
  from inst [THEN conjunct2, THEN conjunct2, THEN conjunct2, THEN conjunct2, rule_format, OF e]
  obtain code h where m: "main 3 deniedWorld = Some (code, h)"
    and k: "code = 1 \<and> h = ?m @ ?new \<or> code = 255 \<and> list_ex exited h"
    by (elim exE conjE) (rule that)
  from k have "code \<noteq> 0" by auto
  with m have f: "\<exists>code h. main 3 deniedWorld = Some (code, h) \<and> code \<noteq> 0"
    by (intro exI [of _ code] exI [of _ h] conjI)
  show ?thesis
    by (intro conjI, fact a, fact b, fact c, fact d, fact e, fact f)
qed

subsection \<open>The exit code\<close>


lemma failedExecutions_simps [simp]:
  "failedExecutions (a @ b) = failedExecutions a @ failedExecutions b"
  "failedExecutions (ev # evs) = failedPoll ev @ failedExecutions evs"
  "failedExecutions [] = []"
  by (simp_all add: failedExecutions_def)




subsection \<open>The tables, one after the other\<close>

lemma inTable_not_step:
  "inTable schema t ev \<Longrightarrow> \<not> tableStep ev \<and> \<not> metadataLookup ev"
  by (cases "(schema, t, ev)" rule: inTable.cases) simp_all

lemma inTable_targets:
  "inTable schema t ev \<Longrightarrow> pgName t = drop 6 (athName t) \<Longrightarrow> targets schema (athName t) ev"
  by (cases "(schema, t, ev)" rule: inTable.cases) simp_all

lemma inTable_filter:
  "list_all (inTable schema t) mid \<Longrightarrow>
     filter tableStep mid = [] \<and> \<not> list_ex metadataLookup mid"
  by (induction mid) (auto dest: inTable_not_step)

lemma stepsOf_steps:
  "filter tableStep (take 2 (stepsOf w t)) = take 2 (stepsOf w t)"
  "filter tableStep (drop 2 (stepsOf w t)) = drop 2 (stepsOf w t)"
  "\<not> list_ex metadataLookup (take 2 (stepsOf w t))"
  "\<not> list_ex metadataLookup (drop 2 (stepsOf w t))"
  by (simp_all add: stepsOf_def)

lemma queryAthena_steps:
  assumes "queryAthena fuel w (athName t) (pgName t) (columns t) s = Some (out, s')"
  shows "\<exists>new. s' = s @ new \<and> \<not> list_ex metadataLookup new \<and>
           filter tableStep new = (if out = Returned then stepsOf w t else take 2 (stepsOf w t))"
proof -
  from queryAthena_segment [OF assms] obtain mid where
    s': "s' = s @ take 2 (stepsOf w t) @ mid @ (if out = Returned then drop 2 (stepsOf w t) else [])"
    and mid: "list_all (inTable (DB_SCHEMA w) t) mid"
    by blast
  note f = inTable_filter [OF mid]
  show ?thesis
    by (rule exI [of _ "take 2 (stepsOf w t) @ mid @ (if out = Returned then drop 2 (stepsOf w t) else [])"])
      (simp add: s' f stepsOf_steps)
qed

lemma forTables_steps:
  assumes "forTables fuel w ts s = Some (out, s')"
  shows "\<exists>new. s' = s @ new \<and> \<not> list_ex metadataLookup new \<and>
           prefix (filter tableStep new) (concat (map (stepsOf w) ts)) \<and>
           (out = Returned \<longrightarrow> filter tableStep new = concat (map (stepsOf w) ts))"
  using assms
proof (induction ts arbitrary: s)
  case Nil
  then show ?case by simp
next
  case (Cons t ts)
  from Cons.prems obtain o1 s1 where
    q: "queryAthena fuel w (athName t) (pgName t) (columns t) s = Some (o1, s1)"
    by (cases "queryAthena fuel w (athName t) (pgName t) (columns t) s") auto
  from queryAthena_steps [OF q] obtain new1 where
    n1: "s1 = s @ new1" and m1: "\<not> list_ex metadataLookup new1"
    and f1: "filter tableStep new1 = (if o1 = Returned then stepsOf w t else take 2 (stepsOf w t))"
    by blast
  show ?case
  proof (cases o1)
    case Returned
    with Cons.prems q have "forTables fuel w ts s1 = Some (out, s')" by simp
    from Cons.IH [OF this] obtain new2 where
      n2: "s' = s1 @ new2" and m2: "\<not> list_ex metadataLookup new2"
      and p2: "prefix (filter tableStep new2) (concat (map (stepsOf w) ts))"
      and r2: "out = Returned \<longrightarrow> filter tableStep new2 = concat (map (stepsOf w) ts)"
      by blast
    show ?thesis
      using n1 n2 m1 m2 p2 r2 f1 Returned
      by (intro exI [of _ "new1 @ new2"]) simp
  next
    case (Thrown x)
    with Cons.prems q have o: "out = Thrown x" and s': "s' = s1" by simp_all
    have "prefix (take 2 (stepsOf w t)) (stepsOf w t @ concat (map (stepsOf w) ts))"
      by (simp add: stepsOf_def)
    with n1 m1 f1 Thrown o s' show ?thesis
      by (intro exI [of _ new1]) simp
  qed
qed

lemma tableRuns_returned:
  "tableRuns w Returned ts segs \<longleftrightarrow> list_all2 (\<lambda>t. tableRun w t Returned) ts segs"
proof (induction ts arbitrary: segs)
  case Nil
  show ?case by auto
next
  case (Cons t ts)
  show ?case
  proof (cases segs)
    case Nil
    then show ?thesis by simp
  next
    case c1: (Cons seg segs')
    show ?thesis
    proof (cases segs')
      case Nil
      with c1 show ?thesis by auto
    next
      case c2: (Cons seg' segs'')
      with c1 Cons.IH [of segs'] show ?thesis by simp
    qed
  qed
qed

lemma tableRuns_length:
  "tableRuns w out ts segs \<Longrightarrow> length segs \<le> length ts \<and> (out \<noteq> Returned \<longrightarrow> segs \<noteq> [])"
proof (induction ts arbitrary: segs)
  case Nil
  then show ?case by simp
next
  case (Cons t ts)
  show ?case
  proof (cases segs)
    case Nil
    with Cons.prems show ?thesis by simp
  next
    case c1: (Cons seg segs')
    show ?thesis
    proof (cases segs')
      case Nil
      with c1 show ?thesis by simp
    next
      case c2: (Cons seg' segs'')
      with c1 Cons.prems have "tableRuns w out ts segs'" by simp
      from Cons.IH [OF this] c1 show ?thesis by simp
    qed
  qed
qed

text \<open>
  C8: in a run that ends, what \<open>insertTablesInOrder\<close> adds to the history starts
  with the metadata lookups of all configured tables, in the configured order, and
  holds no lookup after them.
  \<^item> If a lookup was rejected, nothing follows: the function throws the error of
    the rejected lookup that settled first.
  \<^item> Otherwise every lookup has answered before anything else is done, the table
    entries are those of the configured names in the configured order, and all that
    follows is the loop over these entries, one call of \<open>queryAthena\<close> after the
    other: each call is the opening log line, the submission, the polls and page
    fetches of the submitted execution with the loader calls and statements of this
    table (every page fetched is handed to the loader and a statement is sent for
    it), and the closing log line. A call that returned has polled its execution
    until it was \<open>FAILED\<close> or \<open>SUCCEEDED\<close> and, when it succeeded, has fetched
    all its pages. A call begins only when the call before it has returned; the
    loop ends with the last table, or with the call that threw.
  The lookups are sent in the configured order and joined by \<open>Promise.all\<close>; of
  their concurrency the model keeps the times at which they settle.
\<close>

theorem tables_in_configured_order:
  assumes "insertTablesInOrder fuel w s = Some (out, s')"
  shows "\<exists>rest.
     s' = s @ map (\<lambda>n. GetTableMetadataSent n (getTableMetadata w n)) (glueTableNameList w) @ rest \<and>
     \<not> list_ex metadataLookup rest \<and>
     (case promiseAll (lookups w) of
        Inl e \<Rightarrow> out = Thrown e \<and> rest = [] \<and> firstRejected w e
      | Inr tables \<Rightarrow>
          map athName tables = glueTableNameList w \<and>
          list_all2 (\<lambda>t n. tableOf w n = Inr t) tables (glueTableNameList w) \<and>
          (\<exists>segs. rest = concat segs \<and> tableRuns w out tables segs) \<and>
          prefix (filter tableStep rest) (concat (map (stepsOf w) tables)) \<and>
          (out = Returned \<longrightarrow> filter tableStep rest = concat (map (stepsOf w) tables)))"
proof (cases "promiseAll (lookups w)")
  case (Inl e)
  with assms have "out = Thrown e" "s' = s @ metadataEvents w"
    by (simp_all add: insertTablesInOrder_def Let_def)
  with promiseAll_firstRejected [OF Inl] show ?thesis
    by (intro exI [of _ "[]"]) (simp add: Inl metadataEvents_def)
next
  case (Inr tables)
  with assms have f: "forTables fuel w tables (s @ metadataEvents w) = Some (out, s')"
    by (simp add: insertTablesInOrder_def Let_def)
  from forTables_steps [OF f] obtain new where
    n: "s' = (s @ metadataEvents w) @ new" and m: "\<not> list_ex metadataLookup new"
    and p: "prefix (filter tableStep new) (concat (map (stepsOf w) tables))"
    and r: "out = Returned \<longrightarrow> filter tableStep new = concat (map (stepsOf w) tables)"
    by blast
  from forTables_runs [OF f] n obtain segs where
    g: "new = concat segs" "tableRuns w out tables segs"
    by auto
  from promiseAll_tables [of w "glueTableNameList w" tables] Inr
  have t: "map athName tables = glueTableNameList w"
    "list_all2 (\<lambda>t n. tableOf w n = Inr t) tables (glueTableNameList w)"
    by (simp_all add: lookups_def)
  from g have "\<exists>segs. new = concat segs \<and> tableRuns w out tables segs" by blast
  with n m p r t show ?thesis
    by (intro exI [of _ new]) (simp add: Inr metadataEvents_def)
qed

lemma example_returns: "map_option fst (insertTablesInOrder 3 exampleWorld []) = Some Returned"
  by (simp add: run_eval worlds_eval)

theorem tables_in_configured_order_witness:
  "(\<exists>s' seg1 seg2.
      insertTablesInOrder 3 exampleWorld [] = Some (Returned, s') \<and>
      s' = [GetTableMetadataSent ''glue_table1'' (Inr [\<lparr>Name = ''id''\<rparr>, \<lparr>Name = ''name''\<rparr>]),
            GetTableMetadataSent ''glue_table2'' (Inr [\<lparr>Name = ''id''\<rparr>])] @ seg1 @ seg2 \<and>
      tableRun exampleWorld
        \<lparr>athName = ''glue_table1'', pgName = ''able1'', columns = [''id'', ''name'']\<rparr> Returned seg1 \<and>
      tableRun exampleWorld
        \<lparr>athName = ''glue_table2'', pgName = ''able2'', columns = [''id'']\<rparr> Returned seg2 \<and>
      filter metadataLookup (seg1 @ seg2) = [] \<and>
      filter tableStep s' =
        [ConsoleLog (QueryingAthena ''glue_table1''),
         StartQueryExecutionSent ''SELECT id, name FROM glue_table1'' (Inr ''q1''),
         ConsoleLog (FinishedQuerying ''glue_table1''),
         ConsoleLog (QueryingAthena ''glue_table2''),
         StartQueryExecutionSent ''SELECT id FROM glue_table2'' (Inr ''q2''),
         ConsoleLog (FinishedQuerying ''glue_table2'')]) \<and>
   insertTablesInOrder 3 unknownTablesWorld [] =
     Some (Thrown (Error ''EntityNotFoundException: glue_table2''),
       [GetTableMetadataSent ''glue_table1'' (Inl (Error ''EntityNotFoundException: glue_table1'')),
        GetTableMetadataSent ''glue_table2'' (Inl (Error ''EntityNotFoundException: glue_table2''))]) \<and>
   firstRejected unknownTablesWorld (Error ''EntityNotFoundException: glue_table2'')"
proof -
  let ?t1 = "\<lparr>athName = ''glue_table1'', pgName = ''able1'', columns = [''id'', ''name'']\<rparr>"
  let ?t2 = "\<lparr>athName = ''glue_table2'', pgName = ''able2'', columns = [''id'']\<rparr>"
  from example_returns obtain s' where r: "insertTablesInOrder 3 exampleWorld [] = Some (Returned, s')"
    by (cases "insertTablesInOrder 3 exampleWorld []") auto
  from tables_in_configured_order [OF r] obtain rest where
    s': "s' = [] @ map (\<lambda>n. GetTableMetadataSent n (getTableMetadata exampleWorld n))
                   (glueTableNameList exampleWorld) @ rest"
    and m: "\<not> list_ex metadataLookup rest"
    and c: "case promiseAll (lookups exampleWorld) of
        Inl e \<Rightarrow> Returned = Thrown e \<and> rest = [] \<and> firstRejected exampleWorld e
      | Inr tables \<Rightarrow>
          map athName tables = glueTableNameList exampleWorld \<and>
          list_all2 (\<lambda>t n. tableOf exampleWorld n = Inr t) tables (glueTableNameList exampleWorld) \<and>
          (\<exists>segs. rest = concat segs \<and> tableRuns exampleWorld Returned tables segs) \<and>
          prefix (filter tableStep rest) (concat (map (stepsOf exampleWorld) tables)) \<and>
          (Returned = Returned \<longrightarrow> filter tableStep rest = concat (map (stepsOf exampleWorld) tables))"
    by (elim exE conjE) (rule that)
  note c' = c [unfolded example_tables(1) sum.case]
  from c' obtain segs where g: "rest = concat segs" "tableRuns exampleWorld Returned [?t1, ?t2] segs"
    by (elim exE conjE) (rule that)
  from g(2) obtain seg1 seg2 where segs: "segs = [seg1, seg2]"
    and g1: "tableRun exampleWorld ?t1 Returned seg1"
    and g2: "tableRun exampleWorld ?t2 Returned seg2"
    by (auto simp: tableRuns_returned list_all2_Cons1)
  from c' have f: "filter tableStep rest = concat (map (stepsOf exampleWorld) [?t1, ?t2])"
    by simp
  have rest: "rest = seg1 @ seg2"
    by (simp add: g(1) segs)
  have a: "s' = [GetTableMetadataSent ''glue_table1'' (Inr [\<lparr>Name = ''id''\<rparr>, \<lparr>Name = ''name''\<rparr>]),
            GetTableMetadataSent ''glue_table2'' (Inr [\<lparr>Name = ''id''\<rparr>])] @ seg1 @ seg2"
    by (simp add: s' rest worlds_eval)
  have b: "filter metadataLookup (seg1 @ seg2) = []"
    using m unfolding rest by (simp add: list_ex_iff filter_empty_conv)
  have d: "filter tableStep s' =
        [ConsoleLog (QueryingAthena ''glue_table1''),
         StartQueryExecutionSent ''SELECT id, name FROM glue_table1'' (Inr ''q1''),
         ConsoleLog (FinishedQuerying ''glue_table1''),
         ConsoleLog (QueryingAthena ''glue_table2''),
         StartQueryExecutionSent ''SELECT id FROM glue_table2'' (Inr ''q2''),
         ConsoleLog (FinishedQuerying ''glue_table2'')]"
    by (simp add: s' f stepsOf_def queryString_def worlds_eval)
  have first: "\<exists>s' seg1 seg2.
      insertTablesInOrder 3 exampleWorld [] = Some (Returned, s') \<and>
      s' = [GetTableMetadataSent ''glue_table1'' (Inr [\<lparr>Name = ''id''\<rparr>, \<lparr>Name = ''name''\<rparr>]),
            GetTableMetadataSent ''glue_table2'' (Inr [\<lparr>Name = ''id''\<rparr>])] @ seg1 @ seg2 \<and>
      tableRun exampleWorld ?t1 Returned seg1 \<and>
      tableRun exampleWorld ?t2 Returned seg2 \<and>
      filter metadataLookup (seg1 @ seg2) = [] \<and>
      filter tableStep s' =
        [ConsoleLog (QueryingAthena ''glue_table1''),
         StartQueryExecutionSent ''SELECT id, name FROM glue_table1'' (Inr ''q1''),
         ConsoleLog (FinishedQuerying ''glue_table1''),
         ConsoleLog (QueryingAthena ''glue_table2''),
         StartQueryExecutionSent ''SELECT id FROM glue_table2'' (Inr ''q2''),
         ConsoleLog (FinishedQuerying ''glue_table2'')]"
    by (intro exI [of _ s'] exI [of _ seg1] exI [of _ seg2] conjI,
        fact r, fact a, fact g1, fact g2, fact b, fact d)
  note u = unknownTables_run(2)
  have pu: "promiseAll (lookups unknownTablesWorld) = Inl (Error ''EntityNotFoundException: glue_table2'')"
    by (simp add: lookups_def promiseAll_def tableOf_def worlds_eval)
  from tables_in_configured_order [OF u] obtain rest' where
    "case promiseAll (lookups unknownTablesWorld) of
        Inl e \<Rightarrow> Thrown (Error ''EntityNotFoundException: glue_table2'') = Thrown e \<and> rest' = [] \<and>
                 firstRejected unknownTablesWorld e
      | Inr tables \<Rightarrow>
          map athName tables = glueTableNameList unknownTablesWorld \<and>
          list_all2 (\<lambda>t n. tableOf unknownTablesWorld n = Inr t) tables (glueTableNameList unknownTablesWorld) \<and>
          (\<exists>segs. rest' = concat segs \<and>
             tableRuns unknownTablesWorld (Thrown (Error ''EntityNotFoundException: glue_table2'')) tables segs) \<and>
          prefix (filter tableStep rest') (concat (map (stepsOf unknownTablesWorld) tables)) \<and>
          (Thrown (Error ''EntityNotFoundException: glue_table2'') = Returned \<longrightarrow>
             filter tableStep rest' = concat (map (stepsOf unknownTablesWorld) tables))"
    by (elim exE conjE) (rule that)
  note this [unfolded pu sum.case]
  then have fr: "firstRejected unknownTablesWorld (Error ''EntityNotFoundException: glue_table2'')"
    by (elim conjE)
  show ?thesis
    by (intro conjI, fact first, fact u, fact fr)
qed

subsection \<open>The name of the target table\<close>

lemma queryAthena_tableSegment:
  fixes t :: tableEntry
  assumes "queryAthena fuel w (athName t) (pgName t) (columns t) s = Some (out, s')"
    and "pgName t = drop 6 (athName t)"
  shows "\<exists>seg. s' = s @ seg \<and> tableSegment (DB_SCHEMA w) (athName t) seg"
proof -
  from queryAthena_segment [OF assms(1)] obtain mid where
    s': "s' = s @ take 2 (stepsOf w t) @ mid @ (if out = Returned then drop 2 (stepsOf w t) else [])"
    and mid: "list_all (inTable (DB_SCHEMA w) t) mid"
    by blast
  from mid have "list_all (targets (DB_SCHEMA w) (athName t)) mid"
    by (induction mid) (auto intro: inTable_targets [OF _ assms(2)])
  then show ?thesis
    by (intro exI [of _ "take 2 (stepsOf w t) @ mid @ (if out = Returned then drop 2 (stepsOf w t) else [])"])
      (simp add: s' tableSegment_def stepsOf_def)
qed

lemma forTables_segments:
  fixes ts :: "tableEntry list"
  assumes "forTables fuel w ts s = Some (out, s')"
    and "\<forall>t\<in>set ts. pgName t = drop 6 (athName t)"
  shows "\<exists>segs. s' = s @ concat segs \<and> length segs \<le> length ts \<and>
           list_all2 (tableSegment (DB_SCHEMA w)) (take (length segs) (map athName ts)) segs \<and>
           (out = Returned \<longrightarrow> length segs = length ts)"
  using assms
proof (induction ts arbitrary: s)
  case Nil
  then show ?case by simp
next
  case (Cons t ts)
  from Cons.prems(1) obtain o1 s1 where
    q: "queryAthena fuel w (athName t) (pgName t) (columns t) s = Some (o1, s1)"
    by (cases "queryAthena fuel w (athName t) (pgName t) (columns t) s") auto
  from Cons.prems(2) have pg: "pgName t = drop 6 (athName t)"
    and rest: "\<forall>t\<in>set ts. pgName t = drop 6 (athName t)"
    by simp_all
  from queryAthena_tableSegment [OF q pg] obtain seg where
    n1: "s1 = s @ seg" and g1: "tableSegment (DB_SCHEMA w) (athName t) seg"
    by blast
  show ?case
  proof (cases o1)
    case Returned
    with Cons.prems(1) q have "forTables fuel w ts s1 = Some (out, s')" by simp
    from Cons.IH [OF this rest] obtain segs where
      n2: "s' = s1 @ concat segs" and l2: "length segs \<le> length ts"
      and g2: "list_all2 (tableSegment (DB_SCHEMA w)) (take (length segs) (map athName ts)) segs"
      and r2: "out = Returned \<longrightarrow> length segs = length ts"
      by blast
    show ?thesis
      using n1 n2 l2 g1 g2 r2
      by (intro exI [of _ "seg # segs"]) simp
  next
    case (Thrown x)
    with Cons.prems(1) q have "out = Thrown x" "s' = s1" by simp_all
    with n1 g1 show ?thesis
      by (intro exI [of _ "[seg]"]) simp
  qed
qed

text \<open>
  C10 as stated does not hold in its example. The prefix \<open>glue_\<close> has five
  characters: the statements for the source table \<open>glue_table1\<close> name the target
  \<open>able1\<close>, not \<open>table1\<close>.
\<close>

theorem target_table_counterexample:
  "map_option (insertStatements \<circ> snd) (main 3 exampleWorld) =
     Some [''INSERT INTO public.able1 (id, name) VALUES ($1, $2), ($3, $4)'',
           ''INSERT INTO public.able1 (id, name) VALUES ($1, $2)'',
           ''INSERT INTO public.able2 (id) VALUES '']"
  by (simp add: main_eval run_eval worlds_eval)

text \<open>
  C10 (as amended): the entry of a source table gets the source name without its
  first six characters as target name, from nothing else. In a run that ends, what
  follows the metadata lookups falls into consecutive parts, one for each configured
  table in the configured order (for all of them when the function returns), and
  in the part of a table every call of the loader names that target and every
  statement sent starts with \<open>INSERT INTO\<close>, the schema and that target.
\<close>

theorem target_table_drops_six_characters:
  assumes "insertTablesInOrder fuel w s = Some (out, s')"
  shows "(\<forall>n cs. getTableMetadata w n = Inr cs \<longrightarrow>
            tableOf w n = Inr \<lparr>athName = n, pgName = drop 6 n, columns = map Name cs\<rparr>) \<and>
         (\<exists>segs. s' = s @ metadataEvents w @ concat segs \<and>
            length segs \<le> length (glueTableNameList w) \<and>
            list_all2 (tableSegment (DB_SCHEMA w)) (take (length segs) (glueTableNameList w)) segs \<and>
            (out = Returned \<longrightarrow> length segs = length (glueTableNameList w)))"
proof (intro conjI allI impI)
  fix n cs
  assume "getTableMetadata w n = Inr cs"
  then show "tableOf w n = Inr \<lparr>athName = n, pgName = drop 6 n, columns = map Name cs\<rparr>"
    by (simp add: tableOf_def)
next
  show "\<exists>segs. s' = s @ metadataEvents w @ concat segs \<and>
            length segs \<le> length (glueTableNameList w) \<and>
            list_all2 (tableSegment (DB_SCHEMA w)) (take (length segs) (glueTableNameList w)) segs \<and>
            (out = Returned \<longrightarrow> length segs = length (glueTableNameList w))"
  proof (cases "promiseAll (lookups w)")
    case (Inl e)
    with assms have "out = Thrown e" "s' = s @ metadataEvents w"
      by (simp_all add: insertTablesInOrder_def Let_def)
    then show ?thesis
      by (intro exI [of _ "[]"]) simp
  next
    case (Inr tables)
    with assms have f: "forTables fuel w tables (s @ metadataEvents w) = Some (out, s')"
      by (simp add: insertTablesInOrder_def Let_def)
    from promiseAll_tables [of w "glueTableNameList w" tables] Inr have names: "map athName tables = glueTableNameList w"
      and pg: "\<forall>t\<in>set tables. pgName t = drop 6 (athName t)"
      by (simp_all add: lookups_def)
    from names have len: "length tables = length (glueTableNameList w)"
      by (metis length_map)
    from forTables_segments [OF f pg] obtain segs where
      "s' = (s @ metadataEvents w) @ concat segs" "length segs \<le> length tables"
      "list_all2 (tableSegment (DB_SCHEMA w)) (take (length segs) (map athName tables)) segs"
      "out = Returned \<longrightarrow> length segs = length tables"
      by blast
    then show ?thesis
      by (intro exI [of _ segs]) (simp add: names len)
  qed
qed

theorem target_table_drops_six_characters_witness:
  "tableOf exampleWorld ''glue_table1'' =
     Inr \<lparr>athName = ''glue_table1'', pgName = ''able1'', columns = [''id'', ''name'']\<rparr> \<and>
   (\<exists>s' seg1 seg2.
      insertTablesInOrder 3 exampleWorld [] = Some (Returned, s') \<and>
      s' = metadataEvents exampleWorld @ seg1 @ seg2 \<and>
      tableSegment ''public'' ''glue_table1'' seg1 \<and>
      tableSegment ''public'' ''glue_table2'' seg2)"
proof -
  from example_returns obtain s' where r: "insertTablesInOrder 3 exampleWorld [] = Some (Returned, s')"
    by (cases "insertTablesInOrder 3 exampleWorld []") auto
  note inst = target_table_drops_six_characters [OF r]
  have m: "getTableMetadata exampleWorld ''glue_table1'' = Inr [\<lparr>Name = ''id''\<rparr>, \<lparr>Name = ''name''\<rparr>]"
    by (simp add: worlds_eval)
  from inst [THEN conjunct1, rule_format, OF m]
  have a: "tableOf exampleWorld ''glue_table1'' =
     Inr \<lparr>athName = ''glue_table1'', pgName = ''able1'', columns = [''id'', ''name'']\<rparr>"
    by simp
  from inst [THEN conjunct2] obtain segs where
    s': "s' = [] @ metadataEvents exampleWorld @ concat segs"
    and g: "list_all2 (tableSegment (DB_SCHEMA exampleWorld))
              (take (length segs) (glueTableNameList exampleWorld)) segs"
    and l: "Returned = Returned \<longrightarrow> length segs = length (glueTableNameList exampleWorld)"
    by (elim exE conjE) (rule that)
  from l have "length segs = 2" by (simp add: worlds_eval)
  then obtain seg1 seg2 where segs: "segs = [seg1, seg2]"
    by (cases segs; cases "tl segs") auto
  from g have g1: "tableSegment ''public'' ''glue_table1'' seg1"
    and g2: "tableSegment ''public'' ''glue_table2'' seg2"
    by (simp_all add: segs worlds_eval)
  have s'': "s' = metadataEvents exampleWorld @ seg1 @ seg2"
    by (simp add: s' segs)
  show ?thesis
    by (rule conjI [OF a], intro exI [of _ s'] exI [of _ seg1] exI [of _ seg2] conjI,
        fact r, fact s'', fact g1, fact g2)
qed

end
